theory Spec2Isabelle
  imports Complex_Main "HOL-Library.Char_ord"
begin

section \<open>Absenteeism at work: cleaning pipeline, training loop, prediction service\<close>

text \<open>
  A shallow embedding of \<^verbatim>\<open>absenteeism_at_work/features.py\<close>,
  \<^verbatim>\<open>absenteeism_at_work/modeling/train.py\<close> and \<^verbatim>\<open>absenteeism_at_work/api.py\<close>.

  Conventions.
  \<^item> A pandas DataFrame is a list of labelled columns, in column order; every column is
    the list of its cells in row order. Column labels are distinct, as
    \<^verbatim>\<open>pandas.read_csv\<close> makes them.
  \<^item> A finite binary64 value is the rational number it denotes. Python's \<^verbatim>\<open>round\<close>
    and numpy's \<^verbatim>\<open>round\<close> are exact on that value (ties go to the even integer).
    The quantile, clip and median arithmetic of the pipeline works on integers and
    on multiples of 1/8 of integers, which binary64 represents exactly as long as the
    integers are at most 2^47 in absolute value, so it is written over the rationals.
  \<^item> Every exception the code can raise is a value of \<open>py_error\<close>; a function that can
    raise returns \<open>py_error + 'a\<close>.
\<close>

datatype py_error =
    KeyError "string list"
  | ValueError string
  | TypeError string
  | OverflowError
  | IntCastingNaNError

subsection \<open>Training loop (\<^verbatim>\<open>modeling/train.py\<close>)\<close>

text \<open>The \<^verbatim>\<open>metrics\<close> dictionary built by \<^verbatim>\<open>train_model\<close>.\<close>

record metrics =
  train_mae :: rat
  train_rmse :: rat
  train_r2 :: rat
  test_mae :: rat
  test_rmse :: rat
  test_r2 :: rat

text \<open>
  The dictionary returned by \<^verbatim>\<open>train_model\<close>. The fitted pipeline \<open>'p\<close> and the
  regressor \<open>'m\<close> are opaque. Fitting and scoring are scikit-learn's: \<open>fit_eval\<close>
  stands for "fit the pipeline on the training split and score it on both splits".
  The scores are finite: \<^verbatim>\<open>mean_squared_error\<close> refuses non-finite input.
\<close>

record ('m, 'p) model_result =
  name :: string
  metrics :: metrics
  pipeline :: 'p
  model :: 'm

definition train_model ::
  "('m \<Rightarrow> metrics \<times> 'p) \<Rightarrow> string \<Rightarrow> 'm \<Rightarrow> ('m, 'p) model_result" where
  "train_model fit_eval nm mdl =
     (let (ms, full_pipeline) = fit_eval mdl
      in \<lparr>name = nm, metrics = ms, pipeline = full_pipeline, model = mdl\<rparr>)"

text \<open>\<^verbatim>\<open>best_score = float('inf')\<close>: the running best score is a float that starts at infinity.\<close>

datatype score = Infinity | Finite rat

fun score_less :: "rat \<Rightarrow> score \<Rightarrow> bool" where
  "score_less x Infinity = True"
| "score_less x (Finite y) = (x < y)"

text \<open>\<^verbatim>\<open>str.lower\<close> and \<^verbatim>\<open>str.replace(' ', '_')\<close> on ASCII names.\<close>

definition lower_char :: "char \<Rightarrow> char" where
  "lower_char c =
     (if CHR ''A'' \<le> c \<and> c \<le> CHR ''Z'' then char_of (of_char c + (32::nat)) else c)"

definition model_file :: "string \<Rightarrow> string" where
  "model_file nm =
     ''models/'' @ map (\<lambda>c. if c = CHR '' '' then CHR ''_'' else lower_char c) nm
       @ ''_model.joblib''"

definition best_model_path :: string where
  "best_model_path = ''models/best_model.joblib''"

text \<open>
  The state of the loop in \<^verbatim>\<open>main\<close>: the results so far, the best result and its
  score, and the files \<^verbatim>\<open>joblib.dump\<close> has written (path to pipeline).
\<close>

record ('m, 'p) loop_state =
  results :: "('m, 'p) model_result list"
  best_model :: "('m, 'p) model_result option"
  best_score :: score
  files :: "string \<rightharpoonup> 'p"

definition init_state :: "('m, 'p) loop_state" where
  "init_state = \<lparr>results = [], best_model = None, best_score = Infinity, files = Map.empty\<rparr>"

definition loop_body ::
  "('m \<Rightarrow> metrics \<times> 'p) \<Rightarrow> string \<times> 'm \<Rightarrow> ('m, 'p) loop_state \<Rightarrow> ('m, 'p) loop_state" where
  "loop_body fit_eval nm_mdl st =
     (let result = train_model fit_eval (fst nm_mdl) (snd nm_mdl);
          st1 = st\<lparr>results := results st @ [result]\<rparr>;
          st2 = (if score_less (test_rmse (metrics result)) (best_score st1)
                 then st1\<lparr>best_score := Finite (test_rmse (metrics result)),
                          best_model := Some result\<rparr>
                 else st1)
      in st2\<lparr>files := (files st2)(model_file (name result) \<mapsto> pipeline result)\<rparr>)"

definition train_loop ::
  "('m \<Rightarrow> metrics \<times> 'p) \<Rightarrow> (string \<times> 'm) list \<Rightarrow> ('m, 'p) loop_state" where
  "train_loop fit_eval models = fold (loop_body fit_eval) models init_state"

text \<open>
  The end of \<^verbatim>\<open>main\<close>: \<^verbatim>\<open>best_model['name']\<close> raises a TypeError when no model
  was selected; otherwise the best pipeline is dumped to \<^verbatim>\<open>models/best_model.joblib\<close>.
\<close>

definition train_main ::
  "('m \<Rightarrow> metrics \<times> 'p) \<Rightarrow> (string \<times> 'm) list \<Rightarrow> py_error + ('m, 'p) loop_state" where
  "train_main fit_eval models =
     (let st = train_loop fit_eval models
      in case best_model st of
           None \<Rightarrow> Inl (TypeError ''NoneType object is not subscriptable'')
         | Some b \<Rightarrow> Inr (st\<lparr>files := (files st)(best_model_path \<mapsto> pipeline b)\<rparr>))"

text \<open>
  The position the loop selects: the first position whose held-out RMSE is minimal.
\<close>

definition first_min :: "rat list \<Rightarrow> nat \<Rightarrow> bool" where
  "first_min xs i \<longleftrightarrow>
     i < length xs \<and> (\<forall>j < length xs. xs ! i \<le> xs ! j) \<and> (\<forall>j < i. xs ! i < xs ! j)"

definition rmse_of :: "('m \<Rightarrow> metrics \<times> 'p) \<Rightarrow> (string \<times> 'm) list \<Rightarrow> rat list" where
  "rmse_of fit_eval models = map (\<lambda>nm. test_rmse (fst (fit_eval (snd nm)))) models"

subsection \<open>Cells and frames\<close>

text \<open>
  A float is finite, infinite or NaN. A raw cell, as \<^verbatim>\<open>pandas.read_csv\<close> delivers it,
  is a number (an int64 or float64 value; a missing cell is the float NaN), a bool
  or a text. \<open>StrOf x\<close> is the text \<^verbatim>\<open>str(x)\<close> of the number \<open>x\<close>, which
  \<^verbatim>\<open>astype(str)\<close> makes in stage 2. From stage 3 on every cell is a finite number or
  missing: \<open>rat option\<close>, with \<open>None\<close> for NaN.
\<close>

datatype pyfloat = Fin rat | PosInf | NegInf | FNaN

datatype cell = Num pyfloat | Bool bool | Str string | StrOf pyfloat

type_synonym 'a frame = "(string \<times> 'a list) list"

definition columns :: "'a frame \<Rightarrow> string list" where
  "columns df = map fst df"

text \<open>\<^verbatim>\<open>df[col]\<close>, which raises KeyError for an absent label.\<close>

definition get_col :: "'a frame \<Rightarrow> string \<Rightarrow> py_error + 'a list" where
  "get_col df col = (case map_of df col of None \<Rightarrow> Inl (KeyError [col]) | Some xs \<Rightarrow> Inr xs)"

text \<open>\<^verbatim>\<open>df[col] = xs\<close>: replaces the column in place, or appends a new one.\<close>

definition set_col :: "'a frame \<Rightarrow> string \<Rightarrow> 'a list \<Rightarrow> 'a frame" where
  "set_col df col xs =
     (if col \<in> set (columns df)
      then map (\<lambda>(l, c). if l = col then (l, xs) else (l, c)) df
      else df @ [(col, xs)])"

text \<open>Sequencing of steps that can raise.\<close>

definition bind_err :: "'e + 'a \<Rightarrow> ('a \<Rightarrow> 'e + 'b) \<Rightarrow> 'e + 'b" where
  "bind_err r f = (case r of Inl e \<Rightarrow> Inl e | Inr x \<Rightarrow> f x)"

subsection \<open>Stage 1: \<^verbatim>\<open>DropColumns\<close>\<close>

text \<open>
  \<^verbatim>\<open>X.drop(['ID', 'mixed_type_col'], axis=1)\<close> with pandas' default
  \<^verbatim>\<open>errors='raise'\<close>: a KeyError names the labels that are not columns.
\<close>

definition dropped_labels :: "string list" where
  "dropped_labels = [''ID'', ''mixed_type_col'']"

definition DropColumns :: "'a frame \<Rightarrow> py_error + 'a frame" where
  "DropColumns X =
     (let missing = filter (\<lambda>l. l \<notin> set (columns X)) dropped_labels
      in if missing \<noteq> [] then Inl (KeyError missing)
         else Inr (filter (\<lambda>(l, c). l \<notin> set dropped_labels) X))"

subsection \<open>Stage 2: \<^verbatim>\<open>StripObjectColumns\<close>\<close>

text \<open>
  \<^verbatim>\<open>str.strip()\<close> removes leading and trailing whitespace; the whitespace
  characters with code point below 256 are listed. A column of numbers has a numeric
  dtype and a column of bools has dtype \<^verbatim>\<open>bool\<close>; every other column (one that
  holds a text, or bools beside a missing cell) has dtype \<^verbatim>\<open>object\<close>. In a column
  of dtype \<^verbatim>\<open>object\<close>, \<^verbatim>\<open>astype(str)\<close> turns every cell into a text: a bool into
  \<^verbatim>\<open>'True'\<close> or \<^verbatim>\<open>'False'\<close> and a number \<open>x\<close> (NaN too) into \<^verbatim>\<open>str(x)\<close>, which has
  no whitespace to strip.
\<close>

definition is_space :: "char \<Rightarrow> bool" where
  "is_space c \<longleftrightarrow> (of_char c :: nat) \<in> set [9, 10, 11, 12, 13, 28, 29, 30, 31, 32, 133, 160]"

definition strip :: "string \<Rightarrow> string" where
  "strip s = rev (dropWhile is_space (rev (dropWhile is_space s)))"

definition is_object :: "cell list \<Rightarrow> bool" where
  "is_object col \<longleftrightarrow>
     \<not> (list_all (\<lambda>c. case c of Num x \<Rightarrow> True | _ \<Rightarrow> False) col \<or>
        list_all (\<lambda>c. case c of Bool b \<Rightarrow> True | _ \<Rightarrow> False) col)"

definition strip_cell :: "cell \<Rightarrow> cell" where
  "strip_cell c =
     (case c of
        Str t \<Rightarrow> Str (strip t)
      | Bool b \<Rightarrow> Str (if b then ''True'' else ''False'')
      | Num x \<Rightarrow> StrOf x
      | StrOf x \<Rightarrow> StrOf x)"

definition StripObjectColumns :: "cell frame \<Rightarrow> cell frame" where
  "StripObjectColumns X =
     map (\<lambda>(l, col). (l, if is_object col then map strip_cell col else col)) X"

subsection \<open>Stage 3: \<^verbatim>\<open>SafeRoundToInt\<close>\<close>

text \<open>
  \<^verbatim>\<open>round(x)\<close> on a float: the nearest integer, a tie going to the even one; it
  raises OverflowError on an infinity and ValueError on NaN.
\<close>

definition round_half_even :: "rat \<Rightarrow> int" where
  "round_half_even x =
     (let f = \<lfloor>x\<rfloor>; d = x - of_int f
      in if d < 1/2 then f
         else if 1/2 < d then f + 1
         else if even f then f else f + 1)"

definition py_round :: "pyfloat \<Rightarrow> py_error + int" where
  "py_round x =
     (case x of
        Fin q \<Rightarrow> Inr (round_half_even q)
      | PosInf \<Rightarrow> Inl OverflowError
      | NegInf \<Rightarrow> Inl OverflowError
      | FNaN \<Rightarrow> Inl (ValueError ''cannot convert float NaN to integer''))"

text \<open>
  \<^verbatim>\<open>float(val)\<close>. On a text it is Python's builtin parser, which is not part of the
  repository: \<open>float_of_str\<close> is a parameter, \<open>None\<close> where the parser raises ValueError.
  \<^verbatim>\<open>float(True)\<close> is 1, and \<^verbatim>\<open>float(str(x))\<close> is \<open>x\<close> again.
\<close>

definition py_float :: "(string \<Rightarrow> pyfloat option) \<Rightarrow> cell \<Rightarrow> py_error + pyfloat" where
  "py_float float_of_str val =
     (case val of
        Num x \<Rightarrow> Inr x
      | Bool b \<Rightarrow> Inr (Fin (if b then 1 else 0))
      | Str t \<Rightarrow> (case float_of_str t of
                    None \<Rightarrow> Inl (ValueError ''could not convert string to float'')
                  | Some x \<Rightarrow> Inr x)
      | StrOf x \<Rightarrow> Inr x)"

definition isnull :: "cell \<Rightarrow> bool" where
  "isnull val \<longleftrightarrow> val = Num FNaN"

text \<open>The body of the \<^verbatim>\<open>try\<close> block of \<^verbatim>\<open>safe_convert\<close>, and the function itself.\<close>

definition safe_convert_try :: "(string \<Rightarrow> pyfloat option) \<Rightarrow> cell \<Rightarrow> py_error + rat option" where
  "safe_convert_try float_of_str val =
     (if \<not> isnull val
      then bind_err (py_float float_of_str val)
             (\<lambda>x. bind_err (py_round x) (\<lambda>n. Inr (Some (of_int n))))
      else Inr None)"

definition safe_convert :: "(string \<Rightarrow> pyfloat option) \<Rightarrow> cell \<Rightarrow> rat option" where
  "safe_convert float_of_str val =
     (case safe_convert_try float_of_str val of Inl e \<Rightarrow> None | Inr r \<Rightarrow> r)"

definition SafeRoundToInt :: "(string \<Rightarrow> pyfloat option) \<Rightarrow> cell frame \<Rightarrow> rat option frame" where
  "SafeRoundToInt float_of_str X = map (\<lambda>(l, col). (l, map (safe_convert float_of_str) col)) X"

subsection \<open>Stage 4: \<^verbatim>\<open>FixInvalidValues\<close>\<close>

text \<open>
  \<^verbatim>\<open>x in range(lo, hi)\<close> and \<^verbatim>\<open>x in [0, 1]\<close> compare \<open>x\<close> with the members by
  \<^verbatim>\<open>==\<close>: a float equal to a member is in, NaN is not.
\<close>

definition in_list :: "int list \<Rightarrow> rat option \<Rightarrow> bool" where
  "in_list ks x = (case x of None \<Rightarrow> False | Some q \<Rightarrow> list_ex (\<lambda>k. q = of_int k) ks)"

definition in_range :: "int \<Rightarrow> int \<Rightarrow> rat option \<Rightarrow> bool" where
  "in_range lo hi x = in_list [lo..hi - 1] x"

text \<open>
  \<^verbatim>\<open>Series.mode()\<close>: the most frequent values among the non-missing ones, in
  ascending order; \<^verbatim>\<open>mode()[0]\<close> raises KeyError when there is none.
\<close>

definition dropna :: "'a option list \<Rightarrow> 'a list" where
  "dropna xs = concat (map (\<lambda>x. case x of None \<Rightarrow> [] | Some v \<Rightarrow> [v]) xs)"

definition mode :: "rat option list \<Rightarrow> rat list" where
  "mode xs =
     (let vs = dropna xs; top = fold max (map (count_list vs) vs) 0
      in sort (remdups (filter (\<lambda>v. count_list vs v = top) vs)))"

definition mode0 :: "rat option list \<Rightarrow> py_error + rat" where
  "mode0 xs = (case mode xs of [] \<Rightarrow> Inl (KeyError [''0'']) | m # ms \<Rightarrow> Inr m)"

text \<open>\<^verbatim>\<open>Series.apply(f)\<close>: \<open>f\<close> on every cell in row order; the first exception ends it.\<close>

fun apply_series :: "('a \<Rightarrow> 'e + 'b) \<Rightarrow> 'a list \<Rightarrow> 'e + 'b list" where
  "apply_series f [] = Inr []"
| "apply_series f (x # xs) =
     bind_err (f x) (\<lambda>y. bind_err (apply_series f xs) (\<lambda>ys. Inr (y # ys)))"

text \<open>
  The two lambdas of the stage. The second one reads \<^verbatim>\<open>df[col].mode()[0]\<close> only for
  a cell outside the domain; \<open>xs\<close> is the column as it is before the assignment.
\<close>

definition keep_or_zero :: "(rat option \<Rightarrow> bool) \<Rightarrow> rat option list \<Rightarrow> rat option \<Rightarrow> py_error + rat option" where
  "keep_or_zero valid xs x = Inr (if valid x then x else Some 0)"

definition keep_or_mode :: "(rat option \<Rightarrow> bool) \<Rightarrow> rat option list \<Rightarrow> rat option \<Rightarrow> py_error + rat option" where
  "keep_or_mode valid xs x =
     (if valid x then Inr x else bind_err (mode0 xs) (\<lambda>m. Inr (Some m)))"

definition fix_column ::
  "string \<Rightarrow> (rat option list \<Rightarrow> rat option \<Rightarrow> py_error + rat option) \<Rightarrow>
   rat option frame \<Rightarrow> py_error + rat option frame" where
  "fix_column col f df =
     bind_err (get_col df col)
       (\<lambda>xs. bind_err (apply_series (f xs) xs) (\<lambda>ys. Inr (set_col df col ys)))"

definition FixInvalidValues :: "rat option frame \<Rightarrow> py_error + rat option frame" where
  "FixInvalidValues X =
     bind_err (fix_column ''Reason for absence'' (keep_or_zero (in_range 0 29)) X) (\<lambda>df1.
     bind_err (fix_column ''Month of absence'' (keep_or_zero (in_range 0 13)) df1) (\<lambda>df2.
     bind_err (fix_column ''Day of the week'' (keep_or_mode (in_range 2 7)) df2) (\<lambda>df3.
     bind_err (fix_column ''Seasons'' (keep_or_mode (in_range 1 5)) df3) (\<lambda>df4.
     bind_err (fix_column ''Education'' (keep_or_mode (in_range 1 5)) df4) (\<lambda>df5.
     bind_err (fix_column ''Disciplinary failure'' (keep_or_mode (in_list [0, 1])) df5) (\<lambda>df6.
     bind_err (fix_column ''Social drinker'' (keep_or_mode (in_list [0, 1])) df6) (\<lambda>df7.
     fix_column ''Social smoker'' (keep_or_mode (in_list [0, 1])) df7)))))))"

subsection \<open>Stage 5: \<^verbatim>\<open>WinsorizeIQR\<close>\<close>

text \<open>
  \<^verbatim>\<open>Series.quantile(q)\<close>: linear interpolation between the order statistics of the
  non-missing values at position \<open>q * (n - 1)\<close>; NaN when there is no value.
\<close>

definition quantile :: "rat \<Rightarrow> rat option list \<Rightarrow> rat option" where
  "quantile q xs =
     (let s = sort (dropna xs); n = length s
      in if n = 0 then None
         else let h = q * of_nat (n - 1); j = nat \<lfloor>h\<rfloor>; g = h - of_int \<lfloor>h\<rfloor>
              in Some (if j + 1 < n then s ! j + (s ! (j + 1) - s ! j) * g else s ! (n - 1)))"

text \<open>Float arithmetic with NaN: a NaN operand gives NaN.\<close>

definition nan_op :: "(rat \<Rightarrow> rat \<Rightarrow> rat) \<Rightarrow> rat option \<Rightarrow> rat option \<Rightarrow> rat option" where
  "nan_op f a b = (case a of None \<Rightarrow> None | Some x \<Rightarrow> (case b of None \<Rightarrow> None | Some y \<Rightarrow> Some (f x y)))"

text \<open>
  \<^verbatim>\<open>Series.clip(lower, upper)\<close>: a missing cell stays missing, a NaN bound does not
  clip, and two scalar bounds are put in order first.
\<close>

definition clip_value :: "rat option \<Rightarrow> rat option \<Rightarrow> rat \<Rightarrow> rat" where
  "clip_value lower upper v =
     (let v1 = (case lower of None \<Rightarrow> v | Some l \<Rightarrow> if l \<le> v then v else l)
      in case upper of None \<Rightarrow> v1 | Some u \<Rightarrow> if v1 \<le> u then v1 else u)"

definition clip :: "rat option \<Rightarrow> rat option \<Rightarrow> rat option list \<Rightarrow> rat option list" where
  "clip lower upper xs =
     (case (lower, upper) of
        (Some l, Some u) \<Rightarrow> map (map_option (clip_value (Some (min l u)) (Some (max l u)))) xs
      | _ \<Rightarrow> map (map_option (clip_value lower upper)) xs)"

text \<open>The bounds \<^verbatim>\<open>Q1 - 1.5 * IQR\<close> and \<^verbatim>\<open>Q3 + 1.5 * IQR\<close> of a column.\<close>

definition iqr_bounds :: "rat option list \<Rightarrow> rat option \<times> rat option" where
  "iqr_bounds xs =
     (let Q1 = quantile (1/4) xs; Q3 = quantile (3/4) xs; IQR = nan_op (-) Q3 Q1
      in (nan_op (-) Q1 (nan_op (*) (Some (3/2)) IQR),
          nan_op (+) Q3 (nan_op (*) (Some (3/2)) IQR)))"

definition outlier_columns :: "string list" where
  "outlier_columns =
     [''Transportation expense'', ''Distance from Residence to Work'', ''Service time'',
      ''Age'', ''Work load Average/day'', ''Hit target'', ''Son'', ''Pet'', ''Weight'',
      ''Height'', ''Body mass index'', ''Absenteeism time in hours'']"

definition winsorize_column :: "string \<Rightarrow> rat option frame \<Rightarrow> py_error + rat option frame" where
  "winsorize_column col df =
     bind_err (get_col df col)
       (\<lambda>xs. Inr (set_col df col (clip (fst (iqr_bounds xs)) (snd (iqr_bounds xs)) xs)))"

definition WinsorizeIQR :: "rat option frame \<Rightarrow> py_error + rat option frame" where
  "WinsorizeIQR X = fold (\<lambda>col r. bind_err r (winsorize_column col)) outlier_columns (Inr X)"

subsection \<open>Stage 6: \<^verbatim>\<open>FillNaWithMedian\<close>\<close>

text \<open>
  \<^verbatim>\<open>Series.median()\<close> skips missing cells: the middle order statistic, or the mean
  of the two middle ones; NaN when there is no value. \<^verbatim>\<open>fillna\<close> with a NaN median
  fills nothing.
\<close>

definition median :: "rat option list \<Rightarrow> rat option" where
  "median xs =
     (let s = sort (dropna xs); n = length s
      in if n = 0 then None
         else if odd n then Some (s ! (n div 2))
         else Some ((s ! (n div 2 - 1) + s ! (n div 2)) / 2))"

definition fillna :: "rat option \<Rightarrow> rat option list \<Rightarrow> rat option list" where
  "fillna m col = (case m of None \<Rightarrow> col | Some v \<Rightarrow> map (\<lambda>c. case c of None \<Rightarrow> Some v | Some w \<Rightarrow> Some w) col)"

definition FillNaWithMedian :: "rat option frame \<Rightarrow> rat option frame" where
  "FillNaWithMedian X = map (\<lambda>(l, col). (l, fillna (median col) col)) X"

subsection \<open>Stage 7: \<^verbatim>\<open>FinalIntConversion\<close>\<close>

text \<open>
  \<^verbatim>\<open>X.round(0)\<close> rounds every cell, ties to even; \<^verbatim>\<open>astype(int)\<close> raises
  IntCastingNaNError when a cell is missing and casts the other cells to int64: an
  integer outside the range of int64 wraps around modulo 2^64.
\<close>

definition int64 :: "int \<Rightarrow> int" where
  "int64 k = (k + 2 ^ 63) mod 2 ^ 64 - 2 ^ 63"

definition FinalIntConversion :: "rat option frame \<Rightarrow> py_error + rat option frame" where
  "FinalIntConversion X =
     (if list_ex (\<lambda>(l, col). list_ex (\<lambda>c. c = None) col) X then Inl IntCastingNaNError
      else Inr (map (\<lambda>(l, col).
                  (l, map (map_option (\<lambda>v. of_int (int64 (round_half_even v)))) col)) X))"

subsection \<open>The pipeline\<close>

text \<open>
  \<^verbatim>\<open>create_preprocessing_pipeline().fit_transform(df)\<close>: every \<^verbatim>\<open>fit\<close> returns
  \<^verbatim>\<open>self\<close>, so the pipeline is the composition of the seven \<^verbatim>\<open>transform\<close>s. The
  prefixes up to stage 4 and up to stage 5 are named for the statements below.
\<close>

definition stages_1_to_4 :: "(string \<Rightarrow> pyfloat option) \<Rightarrow> cell frame \<Rightarrow> py_error + rat option frame" where
  "stages_1_to_4 float_of_str X =
     bind_err (DropColumns X)
       (\<lambda>X1. FixInvalidValues (SafeRoundToInt float_of_str (StripObjectColumns X1)))"

definition stages_1_to_5 :: "(string \<Rightarrow> pyfloat option) \<Rightarrow> cell frame \<Rightarrow> py_error + rat option frame" where
  "stages_1_to_5 float_of_str X = bind_err (stages_1_to_4 float_of_str X) WinsorizeIQR"

definition create_preprocessing_pipeline ::
  "(string \<Rightarrow> pyfloat option) \<Rightarrow> cell frame \<Rightarrow> py_error + rat option frame" where
  "create_preprocessing_pipeline float_of_str X =
     bind_err (stages_1_to_5 float_of_str X) (\<lambda>X5. FinalIntConversion (FillNaWithMedian X5))"

text \<open>A processed frame taken as the input of another run: its cells are numbers.\<close>

definition as_raw :: "rat option frame \<Rightarrow> cell frame" where
  "as_raw X = map (\<lambda>(l, col). (l, map (\<lambda>c. case c of None \<Rightarrow> Num FNaN | Some v \<Rightarrow> Num (Fin v)) col)) X"

subsection \<open>Feature preparation (\<^verbatim>\<open>prepare_features\<close> in \<^verbatim>\<open>modeling/train.py\<close>)\<close>

text \<open>
  The number of rows of a frame and its row \<open>i\<close>. \<^verbatim>\<open>DataFrame.drop_duplicates()\<close>
  keeps a row when no earlier row equals it (\<^verbatim>\<open>keep='first'\<close>; two missing cells
  count as equal) and selects the kept positions in every column.
\<close>

definition nrows :: "'a frame \<Rightarrow> nat" where
  "nrows df = (case df of [] \<Rightarrow> 0 | (l, col) # rest \<Rightarrow> length col)"

definition row_at :: "'a frame \<Rightarrow> nat \<Rightarrow> 'a list" where
  "row_at df i = map (\<lambda>(l, col). col ! i) df"

definition rectangular :: "'a frame \<Rightarrow> bool" where
  "rectangular df \<longleftrightarrow> list_all (\<lambda>(l, col). length col = nrows df) df"

definition first_occurrences :: "'a frame \<Rightarrow> nat list" where
  "first_occurrences df =
     filter (\<lambda>i. \<not> list_ex (\<lambda>j. row_at df j = row_at df i) [0..<i]) [0..<nrows df]"

definition drop_duplicates :: "'a frame \<Rightarrow> 'a frame" where
  "drop_duplicates df = map (\<lambda>(l, col). (l, map (\<lambda>i. col ! i) (first_occurrences df))) df"

definition TARGET_COLUMN :: string where
  "TARGET_COLUMN = ''Absenteeism time in hours''"

definition categorical_candidates :: "string list" where
  "categorical_candidates =
     [''Reason for absence'', ''Month of absence'', ''Day of the week'',
      ''Seasons'', ''Education'', ''Disciplinary failure'',
      ''Social drinker'', ''Social smoker'']"

text \<open>
  \<^verbatim>\<open>prepare_features(df, target_col)\<close> returns \<open>(X, y, categorical_cols, numeric_cols)\<close>.
  \<^verbatim>\<open>astype('category')\<close> changes the dtype of a column of \<open>X\<close>, not its cells.
\<close>

definition prepare_features ::
  "'a frame \<Rightarrow> string \<Rightarrow> py_error + ('a frame \<times> 'a list \<times> string list \<times> string list)" where
  "prepare_features df0 target_col =
     (if target_col \<notin> set (columns df0)
      then Inl (ValueError (''Target column '' @ target_col @ '' not found in data''))
      else
        let df = drop_duplicates df0;
            X = filter (\<lambda>(l, col). l \<noteq> target_col) df
        in bind_err (get_col df target_col) (\<lambda>y.
             let categorical_cols = filter (\<lambda>c. c \<in> set (columns X)) categorical_candidates;
                 numeric_cols = filter (\<lambda>c. c \<notin> set categorical_cols) (columns X)
             in Inr (X, y, categorical_cols, numeric_cols)))"

subsection \<open>Prediction service (\<^verbatim>\<open>api.py\<close>)\<close>

record AbsenteeismInput =
  reason_for_absence :: int
  month_of_absence :: int
  day_of_the_week :: int
  seasons :: int
  transportation_expense :: rat
  distance_from_residence_to_work :: rat
  service_time :: rat
  age :: int
  work_load_average_per_day :: rat
  hit_target :: int
  disciplinary_failure :: int
  education :: int
  son :: int
  social_drinker :: int
  social_smoker :: int
  pet :: int
  weight :: rat
  height :: rat
  body_mass_index :: rat

text \<open>The \<^verbatim>\<open>Field(..., ge=, le=)\<close> constraints that pydantic enforces on a request body.\<close>

definition valid_input :: "AbsenteeismInput \<Rightarrow> bool" where
  "valid_input r \<longleftrightarrow>
     0 \<le> reason_for_absence r \<and> reason_for_absence r \<le> 28 \<and>
     0 \<le> month_of_absence r \<and> month_of_absence r \<le> 12 \<and>
     2 \<le> day_of_the_week r \<and> day_of_the_week r \<le> 6 \<and>
     1 \<le> seasons r \<and> seasons r \<le> 4 \<and>
     0 \<le> transportation_expense r \<and>
     0 \<le> distance_from_residence_to_work r \<and>
     0 \<le> service_time r \<and>
     0 \<le> age r \<and>
     0 \<le> work_load_average_per_day r \<and>
     0 \<le> hit_target r \<and> hit_target r \<le> 100 \<and>
     0 \<le> disciplinary_failure r \<and> disciplinary_failure r \<le> 1 \<and>
     1 \<le> education r \<and> education r \<le> 4 \<and>
     0 \<le> son r \<and>
     0 \<le> social_drinker r \<and> social_drinker r \<le> 1 \<and>
     0 \<le> social_smoker r \<and> social_smoker r \<le> 1 \<and>
     0 \<le> pet r \<and>
     0 \<le> weight r \<and>
     0 \<le> height r \<and>
     0 \<le> body_mass_index r"

text \<open>
  A frame handed to the model is the list of its rows, a row being its labelled
  values. \<^verbatim>\<open>input_to_dataframe\<close> builds a frame of one row.
\<close>

type_synonym row = "(string \<times> rat) list"

definition input_to_dataframe :: "AbsenteeismInput \<Rightarrow> row list" where
  "input_to_dataframe input_data =
     [[(''Reason for absence'', of_int (reason_for_absence input_data)),
       (''Month of absence'', of_int (month_of_absence input_data)),
       (''Day of the week'', of_int (day_of_the_week input_data)),
       (''Seasons'', of_int (seasons input_data)),
       (''Transportation expense'', transportation_expense input_data),
       (''Distance from Residence to Work'', distance_from_residence_to_work input_data),
       (''Service time'', service_time input_data),
       (''Age'', of_int (age input_data)),
       (''Work load Average/day'', work_load_average_per_day input_data),
       (''Hit target'', of_int (hit_target input_data)),
       (''Disciplinary failure'', of_int (disciplinary_failure input_data)),
       (''Education'', of_int (education input_data)),
       (''Son'', of_int (son input_data)),
       (''Social drinker'', of_int (social_drinker input_data)),
       (''Social smoker'', of_int (social_smoker input_data)),
       (''Pet'', of_int (pet input_data)),
       (''Weight'', weight input_data),
       (''Height'', height input_data),
       (''Body mass index'', body_mass_index input_data)]]"

text \<open>
  \<^verbatim>\<open>pd.concat(dfs, ignore_index=True)\<close> raises ValueError on an empty list. An
  exception is here the text of its message.
\<close>

definition pd_concat :: "row list list \<Rightarrow> string + row list" where
  "pd_concat dfs = (if dfs = [] then Inl ''No objects to concatenate'' else Inr (concat dfs))"

text \<open>
  The loaded model is a fitted scikit-learn pipeline, which is not part of the
  repository. By scikit-learn's contract \<^verbatim>\<open>model.predict(df)\<close> returns one finite value
  per row of \<open>df\<close>, in row order, computed from that row alone, or raises: a model is a
  function from a row to a value or an exception message.
\<close>

type_synonym predictor = "row \<Rightarrow> string + rat"

definition model_predict :: "predictor \<Rightarrow> row list \<Rightarrow> string + rat list" where
  "model_predict m df = apply_series m df"

datatype http_error = HTTPException nat string

record PredictionResponse =
  predicted_absenteeism_hours :: rat
  model_version :: "string option"

record BatchPredictionResponse =
  predictions :: "PredictionResponse list"
  total :: nat

text \<open>\<^verbatim>\<open>round(x, 2)\<close>: the nearest multiple of 1/100, ties to the even one.\<close>

definition round2 :: "rat \<Rightarrow> rat" where
  "round2 x = of_int (round_half_even (x * 100)) / 100"

text \<open>\<^verbatim>\<open>DEFAULT_MODEL.stem if DEFAULT_MODEL.exists() else None\<close>, given whether the file exists.\<close>

definition version_of :: "bool \<Rightarrow> string option" where
  "version_of default_exists = (if default_exists then Some ''best_model'' else None)"

text \<open>
  The two handlers. \<open>mdl\<close> is the global \<^verbatim>\<open>model\<close>, \<open>None\<close> when no model is loaded.
\<close>

definition predict :: "predictor option \<Rightarrow> bool \<Rightarrow> AbsenteeismInput \<Rightarrow> http_error + PredictionResponse" where
  "predict mdl default_exists input_data =
     (case mdl of
        None \<Rightarrow> Inl (HTTPException 503 ''Model not loaded. Please train a model first.'')
      | Some m \<Rightarrow>
          (case bind_err (model_predict m (input_to_dataframe input_data))
                  (\<lambda>prediction. case prediction of
                       [] \<Rightarrow> Inl ''index 0 is out of bounds''
                     | p # ps \<Rightarrow> Inr (max 0 p)) of
             Inl e \<Rightarrow> Inl (HTTPException 400 (''Prediction error: '' @ e))
           | Inr prediction \<Rightarrow>
               Inr \<lparr>predicted_absenteeism_hours = round2 prediction,
                    model_version = version_of default_exists\<rparr>))"

definition predict_batch ::
  "predictor option \<Rightarrow> bool \<Rightarrow> AbsenteeismInput list \<Rightarrow> http_error + BatchPredictionResponse" where
  "predict_batch mdl default_exists inputs =
     (case mdl of
        None \<Rightarrow> Inl (HTTPException 503 ''Model not loaded. Please train a model first.'')
      | Some m \<Rightarrow>
          (case bind_err (pd_concat (map input_to_dataframe inputs))
                  (\<lambda>df. bind_err (model_predict m df)
                     (\<lambda>preds. Inr (map (\<lambda>p. max p 0) preds))) of
             Inl e \<Rightarrow> Inl (HTTPException 400 (''Batch prediction error: '' @ e))
           | Inr preds \<Rightarrow>
               Inr \<lparr>predictions =
                      map (\<lambda>pred. \<lparr>predicted_absenteeism_hours = round2 pred,
                                   model_version = version_of default_exists\<rparr>) preds,
                    total = length preds\<rparr>))"

text \<open>
  The two POST routes: FastAPI validates the body against the pydantic model and
  answers 422 before the handler runs.
\<close>

definition post_predict :: "predictor option \<Rightarrow> bool \<Rightarrow> AbsenteeismInput \<Rightarrow> http_error + PredictionResponse" where
  "post_predict mdl default_exists input_data =
     (if valid_input input_data then predict mdl default_exists input_data
      else Inl (HTTPException 422 ''Unprocessable Entity''))"

definition post_predict_batch ::
  "predictor option \<Rightarrow> bool \<Rightarrow> AbsenteeismInput list \<Rightarrow> http_error + BatchPredictionResponse" where
  "post_predict_batch mdl default_exists inputs =
     (if list_all valid_input inputs then predict_batch mdl default_exists inputs
      else Inl (HTTPException 422 ''Unprocessable Entity''))"

subsection \<open>Notions used in the statements\<close>

text \<open>The column that stage 5 makes of a column.\<close>

definition winsorized :: "rat option list \<Rightarrow> rat option list" where
  "winsorized xs = clip (fst (iqr_bounds xs)) (snd (iqr_bounds xs)) xs"

text \<open>
  Predicates for the statement about stage 4. \<open>column_pair X Y l R\<close>: the frames \<open>X\<close> and
  \<open>Y\<close> both have the column \<open>l\<close>, and \<open>R\<close> relates the two columns. A column is
  repaired by zero when every cell outside the domain has become 0. \<open>m\<close> is the most
  frequent valid value of a column when it is in the domain, occurs in the column,
  no value of the domain occurs more often, and it is the smallest of those that
  occur as often. A column is repaired by its mode when the cells in the domain are
  unchanged and, if the mode of the column is in the domain, that mode is the most
  frequent valid value, every cell outside the domain has become it, and the whole
  column is then in the domain.
\<close>

definition column_pair :: "'a frame \<Rightarrow> 'a frame \<Rightarrow> string \<Rightarrow> ('a list \<Rightarrow> 'a list \<Rightarrow> bool) \<Rightarrow> bool" where
  "column_pair X Y l R \<longleftrightarrow> (\<exists>xs ys. map_of X l = Some xs \<and> map_of Y l = Some ys \<and> R xs ys)"

definition zero_repaired :: "(rat option \<Rightarrow> bool) \<Rightarrow> rat option list \<Rightarrow> rat option list \<Rightarrow> bool" where
  "zero_repaired valid xs ys \<longleftrightarrow> ys = map (\<lambda>x. if valid x then x else Some 0) xs"

definition most_frequent_valid :: "(rat option \<Rightarrow> bool) \<Rightarrow> rat option list \<Rightarrow> rat \<Rightarrow> bool" where
  "most_frequent_valid valid xs m \<longleftrightarrow>
     valid (Some m) \<and> Some m \<in> set xs \<and>
     (\<forall>v. valid (Some v) \<longrightarrow>
        count_list xs (Some v) \<le> count_list xs (Some m) \<and>
        (count_list xs (Some v) = count_list xs (Some m) \<longrightarrow> m \<le> v))"

definition mode_repaired :: "(rat option \<Rightarrow> bool) \<Rightarrow> rat option list \<Rightarrow> rat option list \<Rightarrow> bool" where
  "mode_repaired valid xs ys \<longleftrightarrow>
     length ys = length xs \<and>
     (\<forall>i<length xs. valid (xs ! i) \<longrightarrow> ys ! i = xs ! i) \<and>
     (\<forall>m. mode0 xs = Inr m \<and> valid (Some m) \<longrightarrow>
        most_frequent_valid valid xs m \<and>
        ys = map (\<lambda>x. if valid x then x else Some m) xs \<and>
        (\<forall>y\<in>set ys. valid y))"

text \<open>
  \<open>k\<close> is the integer nearest to \<open>v\<close>, the even one of the two when \<open>v\<close> lies halfway
  between two integers.
\<close>

definition nearest_integer :: "rat \<Rightarrow> int \<Rightarrow> bool" where
  "nearest_integer v k \<longleftrightarrow>
     \<bar>of_int k - v\<bar> \<le> 1 / 2 \<and> (\<bar>of_int k - v\<bar> = 1 / 2 \<longrightarrow> even k)"

text \<open>
  The interpolation of \<^verbatim>\<open>quantile\<close> at the position \<open>h\<close> of a sorted list, named for
  the proofs.
\<close>

definition lerp_at :: "rat list \<Rightarrow> rat \<Rightarrow> rat" where
  "lerp_at s h =
     (if nat \<lfloor>h\<rfloor> + 1 < length s
      then s ! nat \<lfloor>h\<rfloor> + (s ! (nat \<lfloor>h\<rfloor> + 1) - s ! nat \<lfloor>h\<rfloor>) * (h - of_int \<lfloor>h\<rfloor>)
      else s ! (length s - 1))"

text \<open>
  \<open>v\<close> is a middle value of a column when at least half of the non-missing cells are
  at most \<open>v\<close> and at least half of them are at least \<open>v\<close>.
\<close>

definition middle_value :: "rat option list \<Rightarrow> rat \<Rightarrow> bool" where
  "middle_value col v \<longleftrightarrow>
     length (filter (\<lambda>c. c \<noteq> None) col)
       \<le> 2 * length (filter (\<lambda>c. case c of None \<Rightarrow> False | Some x \<Rightarrow> x \<le> v) col) \<and>
     length (filter (\<lambda>c. c \<noteq> None) col)
       \<le> 2 * length (filter (\<lambda>c. case c of None \<Rightarrow> False | Some x \<Rightarrow> v \<le> x) col)"

subsection \<open>Example inputs\<close>

text \<open>
  Three registered models whose held-out RMSE is 3, 2 and 2; the fitted pipeline of
  model \<open>k\<close> is written \<open>k\<close>.
\<close>

definition ex_fit_eval :: "nat \<Rightarrow> metrics \<times> nat" where
  "ex_fit_eval k =
     (\<lparr>train_mae = 1, train_rmse = 1, train_r2 = 1,
       test_mae = 1, test_rmse = [3, 2, 2] ! k, test_r2 = 0\<rparr>, k)"

definition ex_models :: "(string \<times> nat) list" where
  "ex_models = [(''RandomForest'', 0), (''LightGBM'', 1), (''CatBoost'', 2)]"

text \<open>
  A model that predicts \<open>Age / 7 - 4\<close> hours, and the example request of
  \<^verbatim>\<open>AbsenteeismInput\<close>.
\<close>

definition ex_model :: predictor where
  "ex_model rw = (case map_of rw ''Age'' of None \<Rightarrow> Inl ''Age is missing'' | Some a \<Rightarrow> Inr (a / 7 - 4))"

definition ex_input :: AbsenteeismInput where
  "ex_input = \<lparr>reason_for_absence = 23, month_of_absence = 7, day_of_the_week = 3, seasons = 1,
      transportation_expense = 289, distance_from_residence_to_work = 36, service_time = 13,
      age = 33, work_load_average_per_day = 240, hit_target = 97, disciplinary_failure = 0,
      education = 1, son = 2, social_drinker = 1, social_smoker = 0, pet = 1,
      weight = 90, height = 172, body_mass_index = 30\<rparr>"

text \<open>A frame with the row identifier but without \<^verbatim>\<open>mixed_type_col\<close>, and one with both.\<close>

definition ex_no_mixed :: "cell frame" where
  "ex_no_mixed = [(''ID'', [Num (Fin 1), Num (Fin 2)]), (''Age'', [Num (Fin 33), Num (Fin 50)])]"

definition ex_both :: "cell frame" where
  "ex_both = [(''ID'', [Num (Fin 1), Num (Fin 2)]), (''Age'', [Num (Fin 33), Num (Fin 50)]),
              (''mixed_type_col'', [Str ''a'', Num (Fin 7)])]"

text \<open>
  Python's \<^verbatim>\<open>float\<close> on the texts of the examples: \<^verbatim>\<open>float('25.7')\<close> is the binary64
  number nearest to 25.7, \<^verbatim>\<open>'30'\<close> is 30, \<^verbatim>\<open>'inf'\<close> and \<^verbatim>\<open>'nan'\<close> are read as infinity and NaN, and
  \<^verbatim>\<open>'abc'\<close> is not a number. No other text occurs in the examples.
\<close>

definition float_table :: "string \<Rightarrow> pyfloat option" where
  "float_table t =
     (if t = ''25.7'' then Some (Fin (7233906901463859 / 281474976710656))
      else if t = ''30'' then Some (Fin 30)
      else if t = ''inf'' then Some PosInf
      else if t = ''nan'' then Some FNaN
      else None)"

text \<open>
  A processed frame in which the third row repeats the first one.
\<close>

definition ex_processed :: "int frame" where
  "ex_processed = [(''Age'', [33, 50, 33, 33]), (''Absenteeism time in hours'', [4, 8, 4, 2])]"

text \<open>
  A raw frame of four records. It has an out-of-domain reason, month and day, a text
  column with stray whitespace and an unreadable cell, a missing service time, and
  outliers in three of the columns of the outlier list. \<open>ex_clean\<close> is the frame the
  pipeline makes of it.
\<close>

definition nums :: "rat list \<Rightarrow> cell list" where
  "nums qs = map (\<lambda>q. Num (Fin q)) qs"

definition ex_raw :: "cell frame" where
  "ex_raw =
     [(''ID'', nums [1, 2, 3, 4]),
      (''Reason for absence'', nums [23, 23, 99, 7]),
      (''Month of absence'', nums [7, 7, 7, 13]),
      (''Day of the week'', nums [3, 3, 9, 4]),
      (''Seasons'', nums [1, 1, 1, 1]),
      (''Transportation expense'', nums [0, 100, 100, 100]),
      (''Distance from Residence to Work'', nums [36, 36, 36, 36]),
      (''Service time'', [Num (Fin 13), Num FNaN, Num (Fin 13), Num (Fin 18)]),
      (''Age'', nums [33, 50, 33, 33]),
      (''Work load Average/day'', nums [240, 240, 240, 240]),
      (''Hit target'', nums [97, 97, 97, 97]),
      (''Disciplinary failure'', nums [0, 0, 0, 0]),
      (''Education'', nums [1, 1, 1, 1]),
      (''Son'', nums [2, 2, 2, 2]),
      (''Social drinker'', nums [1, 1, 1, 1]),
      (''Social smoker'', nums [0, 0, 0, 0]),
      (''Pet'', nums [1, 1, 1, 1]),
      (''Weight'', nums [90, 90, 90, 90]),
      (''Height'', nums [172, 172, 172, 172]),
      (''Body mass index'', [Str '' 25.7 '', Str ''30'', Str ''30 '', Str ''abc'']),
      (''Absenteeism time in hours'', nums [4, 8, 4, 2]),
      (''mixed_type_col'', [Str ''a'', Num (Fin 1), Str ''b'', Num (Fin 2)])]"

definition somes :: "rat list \<Rightarrow> rat option list" where
  "somes qs = map Some qs"

definition ex_stage4 :: "rat option frame" where
  "ex_stage4 =
     [(''Reason for absence'', somes [23, 23, 0, 7]),
      (''Month of absence'', somes [7, 7, 7, 0]),
      (''Day of the week'', somes [3, 3, 3, 4]),
      (''Seasons'', somes [1, 1, 1, 1]),
      (''Transportation expense'', somes [0, 100, 100, 100]),
      (''Distance from Residence to Work'', somes [36, 36, 36, 36]),
      (''Service time'', [Some 13, None, Some 13, Some 18]),
      (''Age'', somes [33, 50, 33, 33]),
      (''Work load Average/day'', somes [240, 240, 240, 240]),
      (''Hit target'', somes [97, 97, 97, 97]),
      (''Disciplinary failure'', somes [0, 0, 0, 0]),
      (''Education'', somes [1, 1, 1, 1]),
      (''Son'', somes [2, 2, 2, 2]),
      (''Social drinker'', somes [1, 1, 1, 1]),
      (''Social smoker'', somes [0, 0, 0, 0]),
      (''Pet'', somes [1, 1, 1, 1]),
      (''Weight'', somes [90, 90, 90, 90]),
      (''Height'', somes [172, 172, 172, 172]),
      (''Body mass index'', [Some 26, Some 30, Some 30, None]),
      (''Absenteeism time in hours'', somes [4, 8, 4, 2])]"

definition ex_clean :: "rat option frame" where
  "ex_clean =
     [(''Reason for absence'', somes [23, 23, 0, 7]),
      (''Month of absence'', somes [7, 7, 7, 0]),
      (''Day of the week'', somes [3, 3, 3, 4]),
      (''Seasons'', somes [1, 1, 1, 1]),
      (''Transportation expense'', somes [38, 100, 100, 100]),
      (''Distance from Residence to Work'', somes [36, 36, 36, 36]),
      (''Service time'', somes [13, 13, 13, 18]),
      (''Age'', somes [33, 44, 33, 33]),
      (''Work load Average/day'', somes [240, 240, 240, 240]),
      (''Hit target'', somes [97, 97, 97, 97]),
      (''Disciplinary failure'', somes [0, 0, 0, 0]),
      (''Education'', somes [1, 1, 1, 1]),
      (''Son'', somes [2, 2, 2, 2]),
      (''Social drinker'', somes [1, 1, 1, 1]),
      (''Social smoker'', somes [0, 0, 0, 0]),
      (''Pet'', somes [1, 1, 1, 1]),
      (''Weight'', somes [90, 90, 90, 90]),
      (''Height'', somes [172, 172, 172, 172]),
      (''Body mass index'', somes [26, 30, 30, 30]),
      (''Absenteeism time in hours'', somes [4, 7, 4, 2])]"

text \<open>The example frame as it leaves stage 5.\<close>

definition ex_stage5 :: "rat option frame" where
  "ex_stage5 =
     [(''Reason for absence'', somes [23, 23, 0, 7]),
      (''Month of absence'', somes [7, 7, 7, 0]),
      (''Day of the week'', somes [3, 3, 3, 4]),
      (''Seasons'', somes [1, 1, 1, 1]),
      (''Transportation expense'', somes [75 / 2, 100, 100, 100]),
      (''Distance from Residence to Work'', somes [36, 36, 36, 36]),
      (''Service time'', [Some 13, None, Some 13, Some 18]),
      (''Age'', somes [33, 349 / 8, 33, 33]),
      (''Work load Average/day'', somes [240, 240, 240, 240]),
      (''Hit target'', somes [97, 97, 97, 97]),
      (''Disciplinary failure'', somes [0, 0, 0, 0]),
      (''Education'', somes [1, 1, 1, 1]),
      (''Son'', somes [2, 2, 2, 2]),
      (''Social drinker'', somes [1, 1, 1, 1]),
      (''Social smoker'', somes [0, 0, 0, 0]),
      (''Pet'', somes [1, 1, 1, 1]),
      (''Weight'', somes [90, 90, 90, 90]),
      (''Height'', somes [172, 172, 172, 172]),
      (''Body mass index'', [Some 26, Some 30, Some 30, None]),
      (''Absenteeism time in hours'', somes [4, 29 / 4, 4, 2])]"

text \<open>The example frame as it enters stage 4.\<close>

definition ex_rounded :: "rat option frame" where
  "ex_rounded =
     [(''Reason for absence'', somes [23, 23, 99, 7]),
      (''Month of absence'', somes [7, 7, 7, 13]),
      (''Day of the week'', somes [3, 3, 9, 4]),
      (''Seasons'', somes [1, 1, 1, 1]),
      (''Transportation expense'', somes [0, 100, 100, 100]),
      (''Distance from Residence to Work'', somes [36, 36, 36, 36]),
      (''Service time'', [Some 13, None, Some 13, Some 18]),
      (''Age'', somes [33, 50, 33, 33]),
      (''Work load Average/day'', somes [240, 240, 240, 240]),
      (''Hit target'', somes [97, 97, 97, 97]),
      (''Disciplinary failure'', somes [0, 0, 0, 0]),
      (''Education'', somes [1, 1, 1, 1]),
      (''Son'', somes [2, 2, 2, 2]),
      (''Social drinker'', somes [1, 1, 1, 1]),
      (''Social smoker'', somes [0, 0, 0, 0]),
      (''Pet'', somes [1, 1, 1, 1]),
      (''Weight'', somes [90, 90, 90, 90]),
      (''Height'', somes [172, 172, 172, 172]),
      (''Body mass index'', [Some 26, Some 30, Some 30, None]),
      (''Absenteeism time in hours'', somes [4, 8, 4, 2])]"

section \<open>Properties\<close>

subsection \<open>Model selection\<close>

lemma train_model_sel:
  "name (train_model f n m) = n" "metrics (train_model f n m) = fst (f m)"
  "pipeline (train_model f n m) = snd (f m)" "model (train_model f n m) = m"
  by (simp_all add: train_model_def split: prod.splits)

lemma first_min_snoc_keep:
  assumes "first_min xs i" "\<not> x < xs ! i"
  shows "first_min (xs @ [x]) i"
  using assms unfolding first_min_def
  by (auto simp: nth_append less_Suc_eq)

lemma first_min_snoc_new:
  assumes "first_min xs i" "x < xs ! i"
  shows "first_min (xs @ [x]) (length xs)"
  using assms unfolding first_min_def
  by (auto simp: nth_append less_Suc_eq)

lemma first_min_single: "first_min [x] 0"
  by (simp add: first_min_def)

lemma train_loop_inv:
  fixes f :: "'m \<Rightarrow> metrics \<times> 'p"
  defines "rs \<equiv> \<lambda>ms. map (\<lambda>nm. train_model f (fst nm) (snd nm)) ms"
  shows "results (train_loop f ms) = rs ms \<and>
     (ms = [] \<longrightarrow> best_model (train_loop f ms) = None \<and> best_score (train_loop f ms) = Infinity) \<and>
     (ms \<noteq> [] \<longrightarrow> (\<exists>i. first_min (rmse_of f ms) i \<and>
          best_model (train_loop f ms) = Some (rs ms ! i) \<and>
          best_score (train_loop f ms) = Finite (rmse_of f ms ! i)))"
proof (induction ms rule: rev_induct)
  case Nil
  show ?case by (simp add: train_loop_def init_state_def rs_def)
next
  case (snoc a ms)
  let ?st = "train_loop f ms"
  have step: "train_loop f (ms @ [a]) = loop_body f a ?st"
    by (simp add: train_loop_def)
  let ?x = "test_rmse (fst (f (snd a)))"
  have rm: "rmse_of f (ms @ [a]) = rmse_of f ms @ [?x]"
    by (simp add: rmse_of_def)
  have rsa: "rs (ms @ [a]) = rs ms @ [train_model f (fst a) (snd a)]"
    by (simp add: rs_def)
  have len: "length (rs ms) = length ms" "length (rmse_of f ms) = length ms"
    by (simp_all add: rs_def rmse_of_def)
  show ?case
  proof (cases "ms = []")
    case True
    with snoc have b: "best_score ?st = Infinity" "results ?st = []" by (simp_all add: rs_def)
    have "first_min (rmse_of f (ms @ [a])) 0"
      using True by (simp add: rmse_of_def first_min_single)
    moreover have "rs (ms @ [a]) ! 0 = train_model f (fst a) (snd a)"
      "rmse_of f (ms @ [a]) ! 0 = ?x"
      using True by (simp_all add: rs_def rmse_of_def)
    moreover have "results (loop_body f a ?st) = rs (ms @ [a])"
      using b True by (simp add: loop_body_def Let_def rs_def)
    moreover have "best_model (loop_body f a ?st) = Some (train_model f (fst a) (snd a))"
      "best_score (loop_body f a ?st) = Finite ?x"
      using b by (simp_all add: loop_body_def Let_def train_model_sel)
    ultimately show ?thesis unfolding step
      by (intro conjI impI exI[of _ 0]) simp_all
  next
    case False
    with snoc obtain i where i: "first_min (rmse_of f ms) i"
      "best_model ?st = Some (rs ms ! i)" "best_score ?st = Finite (rmse_of f ms ! i)"
      and r: "results ?st = rs ms" by blast
    have ilt: "i < length ms" using i(1) len by (simp add: first_min_def)
    show ?thesis
    proof (cases "?x < rmse_of f ms ! i")
      case True
      have "first_min (rmse_of f (ms @ [a])) (length ms)"
        using first_min_snoc_new[OF i(1) True] len by (simp add: rm)
      then show ?thesis using True i r len
        by (auto simp: step loop_body_def Let_def train_model_sel rm rsa nth_append
            intro!: exI[of _ "length ms"])
    next
      case F: False
      have "first_min (rmse_of f (ms @ [a])) i"
        using first_min_snoc_keep[OF i(1) F] by (simp add: rm)
      then show ?thesis using F i r len ilt
        by (auto simp: step loop_body_def Let_def train_model_sel rm rsa nth_append
            intro!: exI[of _ i])
    qed
  qed
qed

text \<open>
  Claim C7. For every non-empty list of (name, regressor) pairs, \<^verbatim>\<open>main\<close> ends without
  an exception and the pipeline it dumps to \<^verbatim>\<open>models/best_model.joblib\<close> is the one of
  the result at position \<open>i\<close>, where \<open>i\<close> is the first position of the evaluation
  order whose held-out RMSE is the lowest: no result has a lower one, and every
  earlier result has a strictly higher one.
\<close>

theorem best_model_lowest_test_rmse:
  assumes "models \<noteq> []"
  shows "\<exists>st i. train_main fit_eval models = Inr st \<and>
           first_min (rmse_of fit_eval models) i \<and>
           results st = map (\<lambda>nm. train_model fit_eval (fst nm) (snd nm)) models \<and>
           best_model st = Some (results st ! i) \<and>
           files st best_model_path = Some (pipeline (results st ! i))"
proof -
  from train_loop_inv[of fit_eval models] assms obtain i where
    i: "first_min (rmse_of fit_eval models) i"
    and r: "results (train_loop fit_eval models) =
              map (\<lambda>nm. train_model fit_eval (fst nm) (snd nm)) models"
    and b: "best_model (train_loop fit_eval models) =
              Some (map (\<lambda>nm. train_model fit_eval (fst nm) (snd nm)) models ! i)"
    by blast
  show ?thesis
    by (rule exI[of _ "(train_loop fit_eval models)\<lparr>files :=
          (files (train_loop fit_eval models))(best_model_path \<mapsto>
             pipeline (map (\<lambda>nm. train_model fit_eval (fst nm) (snd nm)) models ! i))\<rparr>"],
        rule exI[of _ i])
      (simp add: train_main_def Let_def b r i)
qed

theorem best_model_lowest_test_rmse_witness:
  "ex_models \<noteq> [] \<and>
   (\<exists>st. train_main ex_fit_eval ex_models = Inr st \<and>
         map name (results st) = [''RandomForest'', ''LightGBM'', ''CatBoost''] \<and>
         map_option name (best_model st) = Some ''LightGBM'' \<and>
         files st best_model_path = Some 1)"
proof -
  have ne: "ex_models \<noteq> []" by (simp add: ex_models_def)
  from best_model_lowest_test_rmse[OF ne, of ex_fit_eval] obtain st i where
    st: "train_main ex_fit_eval ex_models = Inr st"
    and i: "first_min (rmse_of ex_fit_eval ex_models) i"
    and r: "results st = map (\<lambda>nm. train_model ex_fit_eval (fst nm) (snd nm)) ex_models"
    and b: "best_model st = Some (results st ! i)"
    and f: "files st best_model_path = Some (pipeline (results st ! i))"
    by blast
  have xs: "rmse_of ex_fit_eval ex_models = [3, 2, 2]"
    by (simp add: rmse_of_def ex_models_def ex_fit_eval_def)
  have "i = 1"
    using i unfolding xs first_min_def
    by (auto simp: less_Suc_eq numeral_3_eq_3 nth_Cons')
  then show ?thesis
    using ne st r b f
    by (simp add: ex_models_def train_model_sel ex_fit_eval_def)
qed

subsection \<open>Prediction service\<close>

lemma bind_err_Inr: "bind_err (Inr x) f = f x" by (simp add: bind_err_def)

lemma bind_err_Inl: "bind_err (Inl e) f = Inl e" by (simp add: bind_err_def)

lemma bind_err_eq_Inr: "bind_err r f = Inr y \<longleftrightarrow> (\<exists>x. r = Inr x \<and> f x = Inr y)"
  by (cases r) (simp_all add: bind_err_def)

lemma round_half_even_bounds:
  "of_int (round_half_even x) - 1/2 \<le> x" "x \<le> of_int (round_half_even x) + 1/2"
  unfolding round_half_even_def Let_def by (auto; linarith)+

lemma round_half_even_mono: "x \<le> y \<Longrightarrow> round_half_even x \<le> round_half_even y"
proof -
  assume xy: "x \<le> y"
  have fl: "\<lfloor>x\<rfloor> \<le> \<lfloor>y\<rfloor>" using xy by (rule floor_mono)
  show ?thesis
  proof (cases "\<lfloor>x\<rfloor> = \<lfloor>y\<rfloor>")
    case True
    then show ?thesis using xy unfolding round_half_even_def Let_def by auto
  next
    case False
    then have "\<lfloor>x\<rfloor> + 1 \<le> \<lfloor>y\<rfloor>" using fl by simp
    moreover have "round_half_even x \<le> \<lfloor>x\<rfloor> + 1" unfolding round_half_even_def Let_def by auto
    moreover have "\<lfloor>y\<rfloor> \<le> round_half_even y" unfolding round_half_even_def Let_def by auto
    ultimately show ?thesis by linarith
  qed
qed

lemma round_half_even_of_int [simp]: "round_half_even (of_int k) = k"
  by (simp add: round_half_even_def)

lemma round_half_even_zero [simp]: "round_half_even 0 = 0"
  by (simp add: round_half_even_def)

lemma round2_nonneg: "0 \<le> x \<Longrightarrow> 0 \<le> round2 x"
proof -
  assume "0 \<le> x"
  then have "round_half_even 0 \<le> round_half_even (x * 100)"
    by (intro round_half_even_mono) simp
  then show ?thesis by (simp add: round2_def)
qed

lemma predict_Inr:
  assumes "predict mdl ex r = Inr resp"
  shows "\<exists>m p ps. mdl = Some m \<and> model_predict m (input_to_dataframe r) = Inr (p # ps) \<and>
           resp = \<lparr>predicted_absenteeism_hours = round2 (max 0 p), model_version = version_of ex\<rparr>"
proof (cases mdl)
  case None
  with assms show ?thesis by (simp add: predict_def)
next
  case (Some m)
  show ?thesis
  proof (cases "model_predict m (input_to_dataframe r)")
    case (Inl e)
    with assms Some show ?thesis by (simp add: predict_def bind_err_def)
  next
    case (Inr qs)
    with assms Some show ?thesis
      by (cases qs) (auto simp: predict_def bind_err_def)
  qed
qed

lemma model_predict_single:
  "model_predict m (input_to_dataframe r) = Inr ps \<Longrightarrow> \<exists>p. ps = [p]"
  by (auto simp: model_predict_def input_to_dataframe_def bind_err_eq_Inr)

lemma round_half_even_nearest:
  "\<bar>of_int (round_half_even q) - q\<bar> \<le> \<bar>of_int k - q\<bar>"
proof (cases "k = round_half_even q")
  case True
  then show ?thesis by simp
next
  case False
  then consider "k \<le> round_half_even q - 1" | "round_half_even q + 1 \<le> k" by linarith
  then show ?thesis
  proof cases
    case 1
    then have "(of_int k :: rat) \<le> of_int (round_half_even q) - 1"
      by (metis of_int_1 of_int_diff of_int_le_iff)
    with round_half_even_bounds[of q] show ?thesis by linarith
  next
    case 2
    then have "(of_int (round_half_even q) :: rat) + 1 \<le> of_int k"
      by (metis of_int_1 of_int_add of_int_le_iff)
    with round_half_even_bounds[of q] show ?thesis by linarith
  qed
qed

lemma round2_near: "\<bar>round2 x - x\<bar> \<le> 1 / 200"
proof -
  have "\<bar>of_int (round_half_even (x * 100)) - x * 100\<bar> \<le> 1 / 2"
    using round_half_even_bounds[of "x * 100"] by linarith
  then have "\<bar>(of_int (round_half_even (x * 100)) - x * 100) / 100\<bar> \<le> (1 / 2) / 100"
    by (simp only: abs_divide abs_numeral divide_right_mono zero_le_numeral)
  then show ?thesis by (simp add: round2_def diff_divide_distrib)
qed

lemma round2_nearest: "\<bar>round2 x - x\<bar> \<le> \<bar>of_int k / 100 - x\<bar>"
proof -
  have "\<bar>of_int (round_half_even (x * 100)) - x * 100\<bar> \<le> \<bar>of_int k - x * 100\<bar>"
    by (rule round_half_even_nearest)
  then have "\<bar>(of_int (round_half_even (x * 100)) - x * 100) / 100\<bar>
               \<le> \<bar>(of_int k - x * 100) / 100\<bar>"
    by (simp only: abs_divide abs_numeral divide_right_mono zero_le_numeral)
  then show ?thesis by (simp add: round2_def diff_divide_distrib)
qed

lemma round_half_even_tie:
  assumes "\<bar>of_int (round_half_even y) - y\<bar> = 1 / 2"
  shows "even (round_half_even y)"
proof -
  have fl: "of_int \<lfloor>y\<rfloor> \<le> y" "y < of_int \<lfloor>y\<rfloor> + 1" by linarith+
  show ?thesis
  proof (cases "y - of_int \<lfloor>y\<rfloor> < 1 / 2")
    case True
    then have "round_half_even y = \<lfloor>y\<rfloor>" by (simp add: round_half_even_def Let_def)
    with assms True fl show ?thesis by linarith
  next
    case False
    show ?thesis
    proof (cases "1 / 2 < y - of_int \<lfloor>y\<rfloor>")
      case True
      then have "round_half_even y = \<lfloor>y\<rfloor> + 1" using False by (simp add: round_half_even_def Let_def)
      with assms True fl show ?thesis by (simp; linarith)
    next
      case F: False
      then show ?thesis using False by (auto simp: round_half_even_def Let_def)
    qed
  qed
qed

lemma round2_tie_even:
  assumes "\<bar>round2 x - x\<bar> = 1 / 200"
  shows "even (round_half_even (x * 100))"
proof -
  have "round2 x - x = (of_int (round_half_even (x * 100)) - x * 100) / 100"
    by (simp add: round2_def diff_divide_distrib)
  then have "\<bar>of_int (round_half_even (x * 100)) - x * 100\<bar> / 100 = 1 / 200"
    using assms by (simp only: abs_divide abs_numeral)
  then have "\<bar>of_int (round_half_even (x * 100)) - x * 100\<bar> = 1 / 2" by simp
  then show ?thesis by (rule round_half_even_tie)
qed

text \<open>
  Claim C9. For every valid input record, whatever the single-prediction route
  returns is a non-negative number of hours that is a multiple of 1/100 and lies
  within 1/200 of \<open>max 0 p\<close>, where \<open>p\<close> is what \<^verbatim>\<open>model.predict\<close> yields for the
  record. When a model is loaded and \<^verbatim>\<open>model.predict\<close> yields \<open>p\<close>, the route returns
  \<open>max 0 p\<close> rounded to two decimals: a multiple of 1/100 that no other multiple of
  1/100 is nearer to \<open>max 0 p\<close>, the even one at a tie, and 0 when \<open>p\<close> is negative.
\<close>

theorem predict_hours_non_negative:
  assumes "valid_input r"
  shows "(\<forall>resp. post_predict mdl ex r = Inr resp \<longrightarrow>
            0 \<le> predicted_absenteeism_hours resp \<and>
            (\<exists>k::int. predicted_absenteeism_hours resp = of_int k / 100) \<and>
            (\<exists>m p. mdl = Some m \<and> model_predict m (input_to_dataframe r) = Inr [p] \<and>
                   \<bar>predicted_absenteeism_hours resp - max 0 p\<bar> \<le> 1 / 200)) \<and>
         (\<forall>m p. mdl = Some m \<and> model_predict m (input_to_dataframe r) = Inr [p] \<longrightarrow>
            post_predict mdl ex r =
              Inr \<lparr>predicted_absenteeism_hours = round2 (max 0 p), model_version = version_of ex\<rparr> \<and>
            0 \<le> round2 (max 0 p) \<and>
            \<bar>round2 (max 0 p) - max 0 p\<bar> \<le> 1 / 200 \<and>
            (\<forall>k::int. \<bar>round2 (max 0 p) - max 0 p\<bar> \<le> \<bar>of_int k / 100 - max 0 p\<bar>) \<and>
            (\<exists>j::int. round2 (max 0 p) = of_int j / 100 \<and>
                 (\<bar>round2 (max 0 p) - max 0 p\<bar> = 1 / 200 \<longrightarrow> even j)) \<and>
            (p < 0 \<longrightarrow> round2 (max 0 p) = 0))"
proof (intro conjI allI impI)
  fix resp assume "post_predict mdl ex r = Inr resp"
  then have "predict mdl ex r = Inr resp"
    using assms by (simp add: post_predict_def)
  from predict_Inr[OF this] obtain m p ps where m: "mdl = Some m"
    and mp: "model_predict m (input_to_dataframe r) = Inr (p # ps)"
    and resp: "resp = \<lparr>predicted_absenteeism_hours = round2 (max 0 p), model_version = version_of ex\<rparr>"
    by blast
  from model_predict_single[OF mp] have ps: "ps = []" by simp
  show "0 \<le> predicted_absenteeism_hours resp"
    by (simp add: resp round2_nonneg)
  show "\<exists>k::int. predicted_absenteeism_hours resp = of_int k / 100"
    by (auto simp: resp round2_def)
  have "\<bar>predicted_absenteeism_hours resp - max 0 p\<bar> \<le> 1 / 200"
    unfolding resp using round2_near[of "max 0 p"] by simp
  with m mp ps show "\<exists>m p. mdl = Some m \<and> model_predict m (input_to_dataframe r) = Inr [p] \<and>
                   \<bar>predicted_absenteeism_hours resp - max 0 p\<bar> \<le> 1 / 200"
    by blast
next
  fix m p assume h: "mdl = Some m \<and> model_predict m (input_to_dataframe r) = Inr [p]"
  then show "post_predict mdl ex r =
              Inr \<lparr>predicted_absenteeism_hours = round2 (max 0 p), model_version = version_of ex\<rparr>"
    using assms by (simp add: post_predict_def predict_def bind_err_Inr)
  show "0 \<le> round2 (max 0 p)" by (simp add: round2_nonneg)
  show "\<bar>round2 (max 0 p) - max 0 p\<bar> \<le> 1 / 200" by (rule round2_near)
  show "\<exists>j::int. round2 (max 0 p) = of_int j / 100 \<and>
                 (\<bar>round2 (max 0 p) - max 0 p\<bar> = 1 / 200 \<longrightarrow> even j)"
    by (rule exI[of _ "round_half_even (max 0 p * 100)"])
      (simp add: round2_tie_even, simp add: round2_def)
next
  fix m p k assume "mdl = Some m \<and> model_predict m (input_to_dataframe r) = Inr [p]"
  show "\<bar>round2 (max 0 p) - max 0 p\<bar> \<le> \<bar>of_int k / 100 - max 0 p\<bar>"
    by (rule round2_nearest)
next
  fix m p assume "mdl = Some m \<and> model_predict m (input_to_dataframe r) = Inr [p]" "p < 0"
  then show "round2 (max 0 p) = 0" by (simp add: round2_def max_def)
qed

lemma ex_input_valid: "valid_input ex_input"
  by (simp add: valid_input_def ex_input_def)

lemma ex_model_ex_input: "model_predict ex_model (input_to_dataframe ex_input) = Inr [5/7]"
  by (simp add: model_predict_def input_to_dataframe_def ex_model_def ex_input_def bind_err_def)

lemma round2_ex: "round2 (5/7) = 71/100"
  by code_simp

theorem predict_hours_non_negative_witness:
  "valid_input ex_input \<and>
   post_predict (Some ex_model) True ex_input =
     Inr \<lparr>predicted_absenteeism_hours = 71/100, model_version = Some ''best_model''\<rparr> \<and>
   post_predict (Some ex_model) True (ex_input\<lparr>age := 20\<rparr>) =
     Inr \<lparr>predicted_absenteeism_hours = 0, model_version = Some ''best_model''\<rparr>"
proof -
  have v2: "valid_input (ex_input\<lparr>age := 20\<rparr>)"
    by (simp add: valid_input_def ex_input_def)
  have m2: "model_predict ex_model (input_to_dataframe (ex_input\<lparr>age := 20\<rparr>)) = Inr [-8/7]"
    by (simp add: model_predict_def input_to_dataframe_def ex_model_def ex_input_def bind_err_def)
  note t1 = predict_hours_non_negative[OF ex_input_valid, of "Some ex_model" True,
      THEN conjunct2, rule_format, OF conjI[OF refl ex_model_ex_input], THEN conjunct1]
  note t2 = predict_hours_non_negative[OF v2, of "Some ex_model" True,
      THEN conjunct2, rule_format, OF conjI[OF refl m2], THEN conjunct1]
  have c: "round2 0 = 0"
    by (simp add: round2_def)
  show ?thesis
    using t1 t2 c round2_ex by (simp add: ex_input_valid version_of_def)
qed

lemma apply_series_map:
  "(\<forall>x\<in>set xs. f (h x) = Inr (g x)) \<Longrightarrow> apply_series f (map h xs) = Inr (map g xs)"
  by (induction xs) (simp_all add: bind_err_def)

lemma input_to_dataframe_single: "input_to_dataframe r = [hd (input_to_dataframe r)]"
  by (simp add: input_to_dataframe_def)

lemma concat_input_frames:
  "concat (map input_to_dataframe rs) = map (\<lambda>r. hd (input_to_dataframe r)) rs"
proof (induction rs)
  case Nil
  show ?case by simp
next
  case (Cons r rs)
  have "input_to_dataframe r @ concat (map input_to_dataframe rs)
          = hd (input_to_dataframe r) # concat (map input_to_dataframe rs)"
    by (subst input_to_dataframe_single) simp
  with Cons show ?case by simp
qed

lemma model_predict_single_row:
  "model_predict m (input_to_dataframe r) = Inr (p # ps) \<Longrightarrow>
     m (hd (input_to_dataframe r)) = Inr p \<and> ps = []"
proof -
  assume a: "model_predict m (input_to_dataframe r) = Inr (p # ps)"
  have "model_predict m (input_to_dataframe r) = model_predict m [hd (input_to_dataframe r)]"
    by (subst input_to_dataframe_single) simp
  with a show ?thesis
    by (cases "m (hd (input_to_dataframe r))") (auto simp: model_predict_def bind_err_def)
qed

lemma predict_Some_of_row:
  "m (hd (input_to_dataframe r)) = Inr p \<Longrightarrow>
     predict (Some m) ex r =
       Inr \<lparr>predicted_absenteeism_hours = round2 (max 0 p), model_version = version_of ex\<rparr>"
proof -
  assume a: "m (hd (input_to_dataframe r)) = Inr p"
  have "model_predict m (input_to_dataframe r) = model_predict m [hd (input_to_dataframe r)]"
    by (subst input_to_dataframe_single) simp
  also have "\<dots> = Inr [p]" using a by (simp add: model_predict_def bind_err_def)
  finally show ?thesis by (simp add: predict_def bind_err_def)
qed

text \<open>
  Claim C8, amended. For every non-empty list of \<open>n\<close> valid records on each of which
  the single prediction succeeds, the batch route succeeds and returns exactly \<open>n\<close>
  predictions with \<open>total = n\<close>; the prediction at position \<open>i\<close> is the response of
  the single prediction on record \<open>i\<close>, and it is non-negative. With \<open>n = 1\<close> this is
  \<^verbatim>\<open>predict_batch([r])[0] == predict(r)\<close>.
\<close>

theorem batch_agrees_with_single:
  assumes valid: "list_all valid_input rs"
    and ne: "rs \<noteq> []"
    and single: "\<forall>r\<in>set rs. \<exists>resp. post_predict (Some m) ex r = Inr resp"
  shows "\<exists>out. post_predict_batch (Some m) ex rs = Inr out \<and>
           length (predictions out) = length rs \<and> total out = length rs \<and>
           (\<forall>i<length rs. post_predict (Some m) ex (rs ! i) = Inr (predictions out ! i) \<and>
                          0 \<le> predicted_absenteeism_hours (predictions out ! i))"
proof -
  have "\<forall>r\<in>set rs. \<exists>p. m (hd (input_to_dataframe r)) = Inr p"
  proof
    fix r assume r: "r \<in> set rs"
    with single obtain resp where "post_predict (Some m) ex r = Inr resp" by blast
    moreover have "valid_input r" using valid r by (simp add: list_all_iff)
    ultimately have "predict (Some m) ex r = Inr resp" by (simp add: post_predict_def)
    from predict_Inr[OF this] model_predict_single_row
    show "\<exists>p. m (hd (input_to_dataframe r)) = Inr p" by blast
  qed
  then obtain P where P: "\<forall>r\<in>set rs. m (hd (input_to_dataframe r)) = Inr (P r)"
    by metis
  define resp where "resp = (\<lambda>r. \<lparr>predicted_absenteeism_hours = round2 (max 0 (P r)),
                                  model_version = version_of ex\<rparr>)"
  have mp: "model_predict m (concat (map input_to_dataframe rs)) = Inr (map P rs)"
    unfolding concat_input_frames model_predict_def
    using P by (intro apply_series_map) simp
  have batch: "post_predict_batch (Some m) ex rs =
                 Inr \<lparr>predictions = map resp rs, total = length rs\<rparr>"
    using valid ne mp
    by (simp add: post_predict_batch_def predict_batch_def pd_concat_def bind_err_def
        resp_def comp_def max.commute)
  have each: "post_predict (Some m) ex (rs ! i) = Inr (map resp rs ! i) \<and>
              0 \<le> predicted_absenteeism_hours (map resp rs ! i)" if "i < length rs" for i
  proof -
    have mem: "rs ! i \<in> set rs" using that by simp
    then have "valid_input (rs ! i)" using valid by (simp add: list_all_iff)
    moreover have "m (hd (input_to_dataframe (rs ! i))) = Inr (P (rs ! i))" using P mem by blast
    ultimately show ?thesis using that
      by (simp add: post_predict_def predict_Some_of_row resp_def round2_nonneg)
  qed
  show ?thesis
    using each
    by (intro exI[of _ "\<lparr>predictions = map resp rs, total = length rs\<rparr>"])
       (simp add: batch)
qed

text \<open>
  The claim as stated fails for \<open>n = 0\<close>: \<^verbatim>\<open>pd.concat\<close> raises on the empty list and
  the batch route answers 400 instead of an empty list of predictions.
\<close>

theorem empty_batch_is_rejected:
  "list_all valid_input [] \<and>
   post_predict_batch (Some ex_model) True [] =
     Inl (HTTPException 400 ''Batch prediction error: No objects to concatenate'')"
  by (simp add: post_predict_batch_def predict_batch_def pd_concat_def bind_err_def)

theorem batch_agrees_with_single_witness:
  "list_all valid_input [ex_input, ex_input\<lparr>age := 20\<rparr>, ex_input\<lparr>age := 61\<rparr>] \<and>
   post_predict_batch (Some ex_model) True [ex_input, ex_input\<lparr>age := 20\<rparr>, ex_input\<lparr>age := 61\<rparr>] =
     Inr \<lparr>predictions =
            [\<lparr>predicted_absenteeism_hours = 71/100, model_version = Some ''best_model''\<rparr>,
             \<lparr>predicted_absenteeism_hours = 0, model_version = Some ''best_model''\<rparr>,
             \<lparr>predicted_absenteeism_hours = 471/100, model_version = Some ''best_model''\<rparr>],
          total = 3\<rparr>"
proof -
  let ?rs = "[ex_input, ex_input\<lparr>age := 20\<rparr>, ex_input\<lparr>age := 61\<rparr>]"
  have v: "list_all valid_input ?rs"
    by (simp add: valid_input_def ex_input_def)
  have r: "round2 (5/7) = 71/100" "round2 0 = 0" "round2 (33/7) = 471/100"
    by code_simp+
  have s: "post_predict (Some ex_model) True ex_input =
             Inr \<lparr>predicted_absenteeism_hours = 71/100, model_version = Some ''best_model''\<rparr>"
    "post_predict (Some ex_model) True (ex_input\<lparr>age := 20\<rparr>) =
             Inr \<lparr>predicted_absenteeism_hours = 0, model_version = Some ''best_model''\<rparr>"
    "post_predict (Some ex_model) True (ex_input\<lparr>age := 61\<rparr>) =
             Inr \<lparr>predicted_absenteeism_hours = 471/100, model_version = Some ''best_model''\<rparr>"
    using r
    by (simp_all add: post_predict_def predict_def model_predict_def input_to_dataframe_def
        ex_model_def ex_input_def valid_input_def bind_err_def version_of_def)
  have "\<forall>r\<in>set ?rs. \<exists>resp. post_predict (Some ex_model) True r = Inr resp"
    using s by simp
  from batch_agrees_with_single[OF v _ this] obtain out where
    out: "post_predict_batch (Some ex_model) True ?rs = Inr out"
      "length (predictions out) = 3" "total out = 3"
      "\<forall>i<3. post_predict (Some ex_model) True (?rs ! i) = Inr (predictions out ! i)"
    by auto
  from out(2) obtain a b c where abc: "predictions out = [a, b, c]"
    by (auto simp: numeral_3_eq_3 length_Suc_conv)
  have "post_predict (Some ex_model) True (?rs ! 0) = Inr (predictions out ! 0)"
    "post_predict (Some ex_model) True (?rs ! 1) = Inr (predictions out ! 1)"
    "post_predict (Some ex_model) True (?rs ! 2) = Inr (predictions out ! 2)"
    using out(4)[rule_format, of 0] out(4)[rule_format, of 1] out(4)[rule_format, of 2]
    by simp_all
  then have "predictions out =
            [\<lparr>predicted_absenteeism_hours = 71/100, model_version = Some ''best_model''\<rparr>,
             \<lparr>predicted_absenteeism_hours = 0, model_version = Some ''best_model''\<rparr>,
             \<lparr>predicted_absenteeism_hours = 471/100, model_version = Some ''best_model''\<rparr>]"
    using s by (simp add: abc)
  with out(1,3) v show ?thesis by (cases out) simp
qed

subsection \<open>Stage 1: dropping columns\<close>

lemma map_of_filter_labels:
  "l \<notin> set ls \<Longrightarrow> map_of (filter (\<lambda>(k, c). k \<notin> set ls) X) l = map_of X l"
  by (induction X) auto

lemma DropColumns_Inr_iff:
  "DropColumns X = Inr X' \<longleftrightarrow>
     set dropped_labels \<subseteq> set (columns X) \<and> X' = filter (\<lambda>(l, c). l \<notin> set dropped_labels) X"
  by (auto simp: DropColumns_def Let_def filter_empty_conv)

lemma columns_filter: "columns (filter (\<lambda>(l, c). P l) X) = filter P (columns X)"
  by (induction X) (auto simp: columns_def)

text \<open>
  Claim C4, amended. Stage 1 is strict. When the columns \<^verbatim>\<open>ID\<close> and
  \<^verbatim>\<open>mixed_type_col\<close> are both present it returns the frame without them, the other
  columns unchanged and in their order. When one of them is absent it raises a
  KeyError and returns no frame.
\<close>

theorem DropColumns_is_strict:
  "(''ID'' \<in> set (columns X) \<and> ''mixed_type_col'' \<in> set (columns X) \<longrightarrow>
      (\<exists>X'. DropColumns X = Inr X' \<and>
            columns X' = filter (\<lambda>l. l \<noteq> ''ID'' \<and> l \<noteq> ''mixed_type_col'') (columns X) \<and>
            (\<forall>l. l \<noteq> ''ID'' \<and> l \<noteq> ''mixed_type_col'' \<longrightarrow> map_of X' l = map_of X l))) \<and>
   (''ID'' \<notin> set (columns X) \<or> ''mixed_type_col'' \<notin> set (columns X) \<longrightarrow>
      (\<exists>ls. ls \<noteq> [] \<and> set ls \<subseteq> {''ID'', ''mixed_type_col''} - set (columns X) \<and>
            DropColumns X = Inl (KeyError ls)))"
proof (intro conjI impI)
  assume a: "''ID'' \<in> set (columns X) \<and> ''mixed_type_col'' \<in> set (columns X)"
  let ?X' = "filter (\<lambda>(l, c). l \<notin> set dropped_labels) X"
  have "DropColumns X = Inr ?X'"
    using a by (simp add: DropColumns_Inr_iff dropped_labels_def)
  moreover have "columns ?X' = filter (\<lambda>l. l \<noteq> ''ID'' \<and> l \<noteq> ''mixed_type_col'') (columns X)"
    by (simp add: columns_filter dropped_labels_def)
  moreover have "\<forall>l. l \<noteq> ''ID'' \<and> l \<noteq> ''mixed_type_col'' \<longrightarrow> map_of ?X' l = map_of X l"
    by (intro allI impI map_of_filter_labels) (simp add: dropped_labels_def)
  ultimately show "\<exists>X'. DropColumns X = Inr X' \<and>
            columns X' = filter (\<lambda>l. l \<noteq> ''ID'' \<and> l \<noteq> ''mixed_type_col'') (columns X) \<and>
            (\<forall>l. l \<noteq> ''ID'' \<and> l \<noteq> ''mixed_type_col'' \<longrightarrow> map_of X' l = map_of X l)"
    by blast
next
  assume a: "''ID'' \<notin> set (columns X) \<or> ''mixed_type_col'' \<notin> set (columns X)"
  let ?ls = "filter (\<lambda>l. l \<notin> set (columns X)) dropped_labels"
  have "?ls \<noteq> []" using a by (auto simp: dropped_labels_def)
  moreover have "set ?ls \<subseteq> {''ID'', ''mixed_type_col''} - set (columns X)"
    by (auto simp: dropped_labels_def)
  moreover have "DropColumns X = Inl (KeyError ?ls)"
    using \<open>?ls \<noteq> []\<close> by (simp add: DropColumns_def Let_def)
  ultimately show "\<exists>ls. ls \<noteq> [] \<and> set ls \<subseteq> {''ID'', ''mixed_type_col''} - set (columns X) \<and>
            DropColumns X = Inl (KeyError ls)"
    by blast
qed

text \<open>
  The claim as stated fails on a frame without \<^verbatim>\<open>mixed_type_col\<close>: the stage raises
  instead of removing \<^verbatim>\<open>ID\<close>.
\<close>

theorem DropColumns_raises_on_absent_column:
  "DropColumns ex_no_mixed = Inl (KeyError [''mixed_type_col''])"
  by (simp add: DropColumns_def ex_no_mixed_def dropped_labels_def columns_def)

lemma ex_columns:
  "columns ex_both = [''ID'', ''Age'', ''mixed_type_col'']"
  "columns ex_no_mixed = [''ID'', ''Age'']"
  by (simp_all add: columns_def ex_both_def ex_no_mixed_def)

theorem DropColumns_is_strict_witness:
  "''ID'' \<in> set (columns ex_both) \<and> ''mixed_type_col'' \<in> set (columns ex_both) \<and>
   (\<exists>X'. DropColumns ex_both = Inr X' \<and> columns X' = [''Age''] \<and>
         map_of X' ''Age'' = Some [Num (Fin 33), Num (Fin 50)]) \<and>
   ''mixed_type_col'' \<notin> set (columns ex_no_mixed) \<and>
   (\<exists>ls. DropColumns ex_no_mixed = Inl (KeyError ls))"
proof -
  have p: "''ID'' \<in> set (columns ex_both) \<and> ''mixed_type_col'' \<in> set (columns ex_both)"
    by (simp add: ex_columns)
  have q: "''ID'' \<notin> set (columns ex_no_mixed) \<or> ''mixed_type_col'' \<notin> set (columns ex_no_mixed)"
    by (simp add: ex_columns)
  from DropColumns_is_strict[of ex_both, THEN conjunct1, rule_format, OF p] obtain X' where
    X': "DropColumns ex_both = Inr X'"
      "columns X' = filter (\<lambda>l. l \<noteq> ''ID'' \<and> l \<noteq> ''mixed_type_col'') (columns ex_both)"
      "\<forall>l. l \<noteq> ''ID'' \<and> l \<noteq> ''mixed_type_col'' \<longrightarrow> map_of X' l = map_of ex_both l"
    by blast
  have a: "columns X' = [''Age'']" unfolding X'(2) ex_columns by simp
  have "map_of X' ''Age'' = map_of ex_both ''Age''" using X'(3) by simp
  then have b: "map_of X' ''Age'' = Some [Num (Fin 33), Num (Fin 50)]"
    by (simp add: ex_both_def)
  from DropColumns_is_strict[of ex_no_mixed, THEN conjunct2, rule_format, OF q]
  have c: "\<exists>ls. DropColumns ex_no_mixed = Inl (KeyError ls)" by blast
  have d: "''mixed_type_col'' \<notin> set (columns ex_no_mixed)" by (simp add: ex_columns)
  show ?thesis using p X'(1) a b c d by blast
qed

subsection \<open>Stage 3: safe rounding\<close>

lemma safe_convert_Num:
  "safe_convert F (Num x) =
     (case x of Fin q \<Rightarrow> Some (of_int (round_half_even q)) | _ \<Rightarrow> None)"
  by (cases x) (simp_all add: safe_convert_def safe_convert_try_def isnull_def py_float_def
      py_round_def bind_err_def)

lemma safe_convert_Str:
  "safe_convert F (Str t) =
     (case F t of Some (Fin q) \<Rightarrow> Some (of_int (round_half_even q)) | _ \<Rightarrow> None)"
  by (simp add: safe_convert_def safe_convert_try_def isnull_def py_float_def
      py_round_def bind_err_def split: option.splits pyfloat.splits)

lemma safe_convert_Bool:
  "safe_convert F (Bool b) = Some (if b then 1 else 0)"
  by (simp add: safe_convert_def safe_convert_try_def isnull_def py_float_def
      py_round_def bind_err_def round_half_even_def)

lemma safe_convert_StrOf:
  "safe_convert F (StrOf x) =
     (case x of Fin q \<Rightarrow> Some (of_int (round_half_even q)) | _ \<Rightarrow> None)"
  by (cases x) (simp_all add: safe_convert_def safe_convert_try_def isnull_def py_float_def
      py_round_def bind_err_def)

text \<open>
  A column of bools beside a missing cell has dtype \<^verbatim>\<open>object\<close>: stage 2 turns its
  bools into the texts \<^verbatim>\<open>'True'\<close> and \<^verbatim>\<open>'False'\<close>, which \<^verbatim>\<open>float\<close> does not read, so
  stage 3 leaves no value in the column. A column of bools only has dtype \<^verbatim>\<open>bool\<close>
  and becomes a column of ones and zeros.
\<close>

lemma bool_column_examples:
  "StripObjectColumns [(''c'', [Bool True, Num FNaN, Bool False])] =
     [(''c'', [Str ''True'', StrOf FNaN, Str ''False''])]"
  "SafeRoundToInt float_table (StripObjectColumns [(''c'', [Bool True, Num FNaN, Bool False])]) =
     [(''c'', [None, None, None])]"
  "SafeRoundToInt float_table (StripObjectColumns [(''c'', [Bool True, Bool False])]) =
     [(''c'', [Some 1, Some 0])]"
  by (simp_all add: StripObjectColumns_def is_object_def strip_cell_def SafeRoundToInt_def
      safe_convert_Str safe_convert_StrOf safe_convert_Bool float_table_def)

lemma map_of_SafeRoundToInt:
  "map_of (SafeRoundToInt F X) l = map_option (map (safe_convert F)) (map_of X l)"
  by (induction X) (auto simp: SafeRoundToInt_def)

lemma columns_SafeRoundToInt: "columns (SafeRoundToInt F X) = columns X"
  by (induction X) (auto simp: SafeRoundToInt_def columns_def)

text \<open>
  Claim C5, amended. \<^verbatim>\<open>safe_convert\<close> never raises: it returns a number or the missing
  marker. A missing cell becomes missing; a cell that \<^verbatim>\<open>float\<close> cannot read becomes
  missing; a cell that \<^verbatim>\<open>float\<close> reads as a finite number \<open>q\<close> becomes an integer nearest
  to \<open>q\<close> (the even one at a tie); a cell that \<^verbatim>\<open>float\<close> reads as an infinity or as NaN
  becomes missing. Stage 3 keeps the columns and applies \<^verbatim>\<open>safe_convert\<close> to every cell
  of every column.
\<close>

theorem safe_convert_never_raises:
  "(isnull val \<longrightarrow> safe_convert F val = None) \<and>
   (\<forall>e. py_float F val = Inl e \<longrightarrow> safe_convert F val = None) \<and>
   (\<forall>q. py_float F val = Inr (Fin q) \<longrightarrow>
        safe_convert F val = Some (of_int (round_half_even q)) \<and>
        (\<forall>k::int. \<bar>of_int (round_half_even q) - q\<bar> \<le> \<bar>of_int k - q\<bar>)) \<and>
   (py_float F val = Inr PosInf \<or> py_float F val = Inr NegInf \<or> py_float F val = Inr FNaN \<longrightarrow>
        safe_convert F val = None) \<and>
   columns (SafeRoundToInt F X) = columns X \<and>
   (\<forall>l. map_of (SafeRoundToInt F X) l = map_option (map (safe_convert F)) (map_of X l))"
proof (intro conjI allI impI)
  assume "isnull val"
  then show "safe_convert F val = None"
    by (simp add: isnull_def safe_convert_Num)
next
  fix e assume "py_float F val = Inl e"
  then show "safe_convert F val = None"
    by (cases val) (auto simp: py_float_def safe_convert_Str split: option.splits)
next
  fix q assume "py_float F val = Inr (Fin q)"
  then show "safe_convert F val = Some (of_int (round_half_even q))"
    by (cases val)
      (auto simp: py_float_def safe_convert_Str safe_convert_Num safe_convert_Bool
        safe_convert_StrOf round_half_even_def split: option.splits if_splits)
next
  fix q k assume "py_float F val = Inr (Fin q)"
  show "\<bar>of_int (round_half_even q) - q\<bar> \<le> \<bar>of_int k - q\<bar>"
    by (rule round_half_even_nearest)
next
  assume "py_float F val = Inr PosInf \<or> py_float F val = Inr NegInf \<or> py_float F val = Inr FNaN"
  then show "safe_convert F val = None"
    by (cases val)
      (auto simp: py_float_def safe_convert_Str safe_convert_Num safe_convert_Bool
        safe_convert_StrOf round_half_even_def split: option.splits if_splits)
next
  show "columns (SafeRoundToInt F X) = columns X" by (rule columns_SafeRoundToInt)
next
  fix l show "map_of (SafeRoundToInt F X) l = map_option (map (safe_convert F)) (map_of X l)"
    by (rule map_of_SafeRoundToInt)
qed

text \<open>
  The claim as stated fails on a cell that holds an infinity: \<^verbatim>\<open>float\<close> reads it, as a
  float cell and as the text \<^verbatim>\<open>'inf'\<close>, but \<^verbatim>\<open>round\<close> raises OverflowError and the cell
  becomes missing, not a rounded number.
\<close>

theorem infinity_parses_but_becomes_missing:
  "py_float float_table (Num PosInf) = Inr PosInf \<and>
   safe_convert float_table (Num PosInf) = None \<and>
   py_float float_table (Str ''inf'') = Inr PosInf \<and>
   safe_convert float_table (Str ''inf'') = None"
  by (simp add: py_float_def float_table_def safe_convert_Num safe_convert_Str)

theorem safe_convert_never_raises_witness:
  "isnull (Num FNaN) \<and> safe_convert float_table (Num FNaN) = None \<and>
   py_float float_table (Str ''abc'') = Inl (ValueError ''could not convert string to float'') \<and>
   safe_convert float_table (Str ''abc'') = None \<and>
   py_float float_table (Str ''25.7'') = Inr (Fin (7233906901463859 / 281474976710656)) \<and>
   safe_convert float_table (Str ''25.7'') = Some 26 \<and>
   py_float float_table (Str ''nan'') = Inr FNaN \<and>
   safe_convert float_table (Str ''nan'') = None"
proof -
  have n: "isnull (Num FNaN)" by (simp add: isnull_def)
  have a: "py_float float_table (Str ''abc'') = Inl (ValueError ''could not convert string to float'')"
    by (simp add: py_float_def float_table_def)
  have b: "py_float float_table (Str ''25.7'') = Inr (Fin (7233906901463859 / 281474976710656))"
    by (simp add: py_float_def float_table_def)
  have c: "py_float float_table (Str ''nan'') = Inr FNaN"
    by (simp add: py_float_def float_table_def)
  have r: "round_half_even (7233906901463859 / 281474976710656) = 26"
    by code_simp
  note t = safe_convert_never_raises[of _ float_table "[]"]
  have "safe_convert float_table (Num FNaN) = None"
    using t[of "Num FNaN"] n by blast
  moreover have "safe_convert float_table (Str ''abc'') = None"
    using t[of "Str ''abc''"] a by blast
  moreover have "safe_convert float_table (Str ''25.7'') = Some (of_int 26)"
    using t[of "Str ''25.7''"] b r by metis
  moreover have "safe_convert float_table (Str ''nan'') = None"
    using t[of "Str ''nan''"] c by blast
  ultimately show ?thesis using n a b c by simp
qed

subsection \<open>Feature preparation\<close>

lemma first_occurrences_iff:
  "i \<in> set (first_occurrences df) \<longleftrightarrow>
     i < nrows df \<and> (\<forall>j<i. row_at df j \<noteq> row_at df i)"
  by (auto simp: first_occurrences_def list_ex_iff)

lemma distinct_first_occurrences: "distinct (first_occurrences df)"
  by (simp add: first_occurrences_def)

lemma distinct_rows_first_occurrences:
  "distinct (map (row_at df) (first_occurrences df))"
proof -
  have "inj_on (row_at df) (set (first_occurrences df))"
  proof (rule inj_onI)
    fix i j assume i: "i \<in> set (first_occurrences df)" and j: "j \<in> set (first_occurrences df)"
      and eq: "row_at df i = row_at df j"
    show "i = j"
    proof (rule ccontr)
      assume "i \<noteq> j"
      then consider "i < j" | "j < i" by linarith
      then show False
      proof cases
        case 1
        with j eq show False by (auto simp: first_occurrences_iff)
      next
        case 2
        with i eq show False by (auto simp: first_occurrences_iff)
      qed
    qed
  qed
  then show ?thesis by (simp add: distinct_map distinct_first_occurrences)
qed

lemma rows_first_occurrences:
  "set (map (row_at df) (first_occurrences df)) = row_at df ` {..<nrows df}"
proof (intro equalityI subsetI)
  fix r assume "r \<in> set (map (row_at df) (first_occurrences df))"
  then show "r \<in> row_at df ` {..<nrows df}"
    by (auto simp: first_occurrences_iff)
next
  fix r assume "r \<in> row_at df ` {..<nrows df}"
  then obtain i where i: "i < nrows df" "r = row_at df i" by auto
  define j where "j = (LEAST j. row_at df j = r)"
  have jr: "row_at df j = r" unfolding j_def using i(2) by (metis (mono_tags, lifting) LeastI)
  have jle: "j \<le> i" unfolding j_def using i(2) by (simp add: Least_le)
  have "\<forall>k<j. row_at df k \<noteq> row_at df j"
  proof (intro allI impI)
    fix k assume "k < j"
    then have "row_at df k \<noteq> r" unfolding j_def by (rule not_less_Least)
    then show "row_at df k \<noteq> row_at df j" by (simp add: jr)
  qed
  then have "j \<in> set (first_occurrences df)"
    using jle i(1) by (simp add: first_occurrences_iff)
  then show "r \<in> set (map (row_at df) (first_occurrences df))"
    using jr by force
qed

lemma length_first_occurrences_le: "length (first_occurrences df) \<le> nrows df"
  using length_filter_le[of _ "[0..<nrows df]"] by (simp add: first_occurrences_def)

lemma length_first_occurrences_less:
  assumes "\<not> distinct (map (row_at df) [0..<nrows df])"
  shows "length (first_occurrences df) < nrows df"
proof (rule ccontr)
  assume "\<not> length (first_occurrences df) < nrows df"
  then have eq: "length (first_occurrences df) = length [0..<nrows df]"
    using length_first_occurrences_le[of df] by simp
  let ?P = "\<lambda>i. \<not> list_ex (\<lambda>j. row_at df j = row_at df i) [0..<i]"
  have "length (filter ?P [0..<nrows df]) + length (filter (\<lambda>i. \<not> ?P i) [0..<nrows df])
          = length [0..<nrows df]"
    by (rule sum_length_filter_compl)
  with eq have "filter (\<lambda>i. \<not> ?P i) [0..<nrows df] = []"
    by (simp add: first_occurrences_def)
  then have "\<forall>i\<in>set [0..<nrows df]. ?P i"
    unfolding filter_empty_conv by blast
  then have "filter ?P [0..<nrows df] = [0..<nrows df]"
    unfolding filter_id_conv by blast
  then have "first_occurrences df = [0..<nrows df]"
    by (simp add: first_occurrences_def)
  with distinct_rows_first_occurrences[of df] assms show False by simp
qed

lemma row_at_drop_duplicates:
  "k < length (first_occurrences df) \<Longrightarrow>
     row_at (drop_duplicates df) k = row_at df (first_occurrences df ! k)"
  by (simp add: row_at_def drop_duplicates_def comp_def case_prod_unfold)

lemma columns_drop_duplicates: "columns (drop_duplicates df) = columns df"
  by (simp add: columns_def drop_duplicates_def comp_def case_prod_unfold)

lemma map_of_drop_duplicates:
  "map_of (drop_duplicates df) l =
     map_option (\<lambda>col. map (\<lambda>i. col ! i) (first_occurrences df)) (map_of df l)"
proof -
  have "map_of (map (\<lambda>(l, col). (l, f col)) xs) l = map_option f (map_of xs l)"
    for f :: "'a list \<Rightarrow> 'a list" and xs :: "'a frame"
    by (induction xs) auto
  then show ?thesis by (simp add: drop_duplicates_def)
qed

lemma map_of_columns: "l \<in> set (columns df) \<Longrightarrow> \<exists>col. map_of df l = Some col"
  by (induction df) (auto simp: columns_def)

text \<open>
  Claim C10. When the target column is present, \<^verbatim>\<open>prepare_features\<close> returns the
  features \<open>X\<close> and the target \<open>y\<close> of the de-duplicated frame: every column of \<open>X\<close> and
  \<open>y\<close> hold the cells at the positions of the first occurrences of the rows of the
  input. Those rows are pairwise different, every row of the input is among them,
  and when the input has a repeated row they are fewer than the rows of the input.
  \<^verbatim>\<open>main\<close> hands this \<open>X\<close> and \<open>y\<close> to \<^verbatim>\<open>train_test_split\<close>.
\<close>

theorem prepare_features_drops_duplicates:
  assumes "target_col \<in> set (columns df)"
  shows "\<exists>X y cats nums col. prepare_features df target_col = Inr (X, y, cats, nums) \<and>
           X = filter (\<lambda>(l, c). l \<noteq> target_col) (drop_duplicates df) \<and>
           map_of df target_col = Some col \<and>
           y = map (\<lambda>i. col ! i) (first_occurrences df) \<and>
           (\<forall>k < length (first_occurrences df).
               row_at (drop_duplicates df) k = row_at df (first_occurrences df ! k)) \<and>
           distinct (map (row_at df) (first_occurrences df)) \<and>
           set (map (row_at df) (first_occurrences df)) = row_at df ` {..<nrows df} \<and>
           (\<not> distinct (map (row_at df) [0..<nrows df]) \<longrightarrow>
               length y < nrows df)"
proof -
  from map_of_columns[OF assms] obtain col where col: "map_of df target_col = Some col" by blast
  let ?y = "map (\<lambda>i. col ! i) (first_occurrences df)"
  have g: "get_col (drop_duplicates df) target_col = Inr ?y"
    by (simp add: get_col_def map_of_drop_duplicates col)
  have p: "prepare_features df target_col =
        Inr (filter (\<lambda>(l, c). l \<noteq> target_col) (drop_duplicates df), ?y,
             filter (\<lambda>c. c \<in> set (columns (filter (\<lambda>(l, c). l \<noteq> target_col) (drop_duplicates df))))
               categorical_candidates,
             filter (\<lambda>c. c \<notin> set (filter (\<lambda>c. c \<in> set (columns (filter (\<lambda>(l, c). l \<noteq> target_col)
                  (drop_duplicates df)))) categorical_candidates))
               (columns (filter (\<lambda>(l, c). l \<noteq> target_col) (drop_duplicates df))))"
    using assms by (simp add: prepare_features_def Let_def g bind_err_def)
  show ?thesis
    using p col row_at_drop_duplicates[of _ df] distinct_rows_first_occurrences[of df]
      rows_first_occurrences[of df] length_first_occurrences_less[of df]
    by (intro exI conjI) (assumption | simp)+
qed

theorem prepare_features_drops_duplicates_witness:
  "TARGET_COLUMN \<in> set (columns ex_processed) \<and>
   \<not> distinct (map (row_at ex_processed) [0..<nrows ex_processed]) \<and>
   nrows ex_processed = 4 \<and>
   (\<exists>X y cats nums. prepare_features ex_processed TARGET_COLUMN = Inr (X, y, cats, nums) \<and>
        X = [(''Age'', [33, 50, 33])] \<and> y = [4, 8, 2])"
proof -
  have t: "TARGET_COLUMN \<in> set (columns ex_processed)"
    by (simp add: TARGET_COLUMN_def columns_def ex_processed_def)
  have n: "nrows ex_processed = 4"
    by (simp add: nrows_def ex_processed_def)
  have upt4: "[0..<4] = [0, 1, 2, 3]"
    by (simp add: upt_rec eval_nat_numeral)
  have rows: "map (row_at ex_processed) [0..<4] = [[33, 4], [50, 8], [33, 4], [33, 2]]"
    unfolding upt4 by (simp add: row_at_def ex_processed_def)
  have d: "\<not> distinct (map (row_at ex_processed) [0..<nrows ex_processed])"
    unfolding n rows by simp
  have fo: "first_occurrences ex_processed = [0, 1, 3]"
    unfolding first_occurrences_def n upt4
    by (simp add: row_at_def ex_processed_def upt_rec eval_nat_numeral)
  have dd: "drop_duplicates ex_processed =
              [(''Age'', [33, 50, 33]), (''Absenteeism time in hours'', [4, 8, 2])]"
    by (simp add: drop_duplicates_def fo) (simp add: ex_processed_def)
  have m: "map_of ex_processed TARGET_COLUMN = Some [4, 8, 4, 2]"
    by (simp add: TARGET_COLUMN_def ex_processed_def)
  from prepare_features_drops_duplicates[OF t] obtain X y cats nums col where
    r: "prepare_features ex_processed TARGET_COLUMN = Inr (X, y, cats, nums) \<and>
      X = filter (\<lambda>(l, c). l \<noteq> TARGET_COLUMN) (drop_duplicates ex_processed) \<and>
      map_of ex_processed TARGET_COLUMN = Some col \<and>
      y = map (\<lambda>i. col ! i) (first_occurrences ex_processed) \<and>
      (\<forall>k < length (first_occurrences ex_processed).
         row_at (drop_duplicates ex_processed) k =
           row_at ex_processed (first_occurrences ex_processed ! k)) \<and>
      distinct (map (row_at ex_processed) (first_occurrences ex_processed)) \<and>
      set (map (row_at ex_processed) (first_occurrences ex_processed)) =
        row_at ex_processed ` {..<nrows ex_processed} \<and>
      (\<not> distinct (map (row_at ex_processed) [0..<nrows ex_processed]) \<longrightarrow>
         length y < nrows ex_processed)"
    by (elim exE) (rule that)
  have r1: "prepare_features ex_processed TARGET_COLUMN = Inr (X, y, cats, nums)"
    and r2: "X = filter (\<lambda>(l, c). l \<noteq> TARGET_COLUMN) (drop_duplicates ex_processed)"
    and r3: "map_of ex_processed TARGET_COLUMN = Some col"
    and r4: "y = map (\<lambda>i. col ! i) (first_occurrences ex_processed)"
    using r by (rule conjunct1, rule conjunct2[THEN conjunct1],
        rule conjunct2[THEN conjunct2, THEN conjunct1],
        rule conjunct2[THEN conjunct2, THEN conjunct2, THEN conjunct1])
  have "X = [(''Age'', [33, 50, 33])]"
    unfolding r2 dd by (simp add: TARGET_COLUMN_def)
  moreover have c: "col = [4, 8, 4, 2]"
    using r3 m by simp
  moreover have "y = [4, 8, 2]"
    unfolding r4 fo c by (simp add: eval_nat_numeral)
  ultimately show ?thesis using t d n r1 by (intro conjI exI) assumption+
qed

subsection \<open>The example run\<close>

lemma floor_numeral_div [simp]:
  "\<lfloor>numeral a / numeral b :: rat\<rfloor> = numeral a div numeral b"
  using floor_divide_of_int_eq[of "numeral a" "numeral b", where ?'a = rat] by simp

lemma floor_one_div [simp]: "\<lfloor>1 / numeral b :: rat\<rfloor> = 1 div numeral b"
  using floor_divide_of_int_eq[of 1 "numeral b", where ?'a = rat] by simp

lemma ex_drop:
  "DropColumns ex_raw = Inr (butlast (tl ex_raw))"
  by (simp add: DropColumns_def dropped_labels_def columns_def ex_raw_def)

lemma strip_ex:
  "strip '' 25.7 '' = ''25.7''" "strip ''30'' = ''30''" "strip ''30 '' = ''30''"
  "strip ''abc'' = ''abc''"
  by (simp_all add: strip_def is_space_def)

lemma rhe_ex: "round_half_even (7233906901463859 / 281474976710656) = 26"
  by (simp add: round_half_even_def Let_def)

lemma rhe_int [simp]: "round_half_even (numeral k) = numeral k"
  using round_half_even_of_int[of "numeral k"] by simp

lemma rhe_1 [simp]: "round_half_even 1 = 1"
  using round_half_even_of_int[of 1] by simp

lemma ex_stage3:
  "SafeRoundToInt float_table (StripObjectColumns (butlast (tl ex_raw))) =
     [(''Reason for absence'', somes [23, 23, 99, 7]),
      (''Month of absence'', somes [7, 7, 7, 13]),
      (''Day of the week'', somes [3, 3, 9, 4]),
      (''Seasons'', somes [1, 1, 1, 1]),
      (''Transportation expense'', somes [0, 100, 100, 100]),
      (''Distance from Residence to Work'', somes [36, 36, 36, 36]),
      (''Service time'', [Some 13, None, Some 13, Some 18]),
      (''Age'', somes [33, 50, 33, 33]),
      (''Work load Average/day'', somes [240, 240, 240, 240]),
      (''Hit target'', somes [97, 97, 97, 97]),
      (''Disciplinary failure'', somes [0, 0, 0, 0]),
      (''Education'', somes [1, 1, 1, 1]),
      (''Son'', somes [2, 2, 2, 2]),
      (''Social drinker'', somes [1, 1, 1, 1]),
      (''Social smoker'', somes [0, 0, 0, 0]),
      (''Pet'', somes [1, 1, 1, 1]),
      (''Weight'', somes [90, 90, 90, 90]),
      (''Height'', somes [172, 172, 172, 172]),
      (''Body mass index'', [Some 26, Some 30, Some 30, None]),
      (''Absenteeism time in hours'', somes [4, 8, 4, 2])]"
  by (simp add: ex_raw_def nums_def somes_def SafeRoundToInt_def StripObjectColumns_def
      is_object_def strip_cell_def strip_ex safe_convert_Num safe_convert_Str float_table_def rhe_ex)

lemma in_list_Some_of_int: "in_list ks (Some (of_int k)) \<longleftrightarrow> k \<in> set ks"
  by (auto simp: in_list_def list_ex_iff)

lemma in_range_Some_of_int: "in_range lo hi (Some (of_int k)) \<longleftrightarrow> lo \<le> k \<and> k < hi"
  by (auto simp: in_range_def in_list_Some_of_int)

lemma in_range_numeral [simp]:
  "in_range lo hi (Some (numeral n)) \<longleftrightarrow> lo \<le> numeral n \<and> numeral n < hi"
  "in_range lo hi (Some 0) \<longleftrightarrow> lo \<le> 0 \<and> 0 < hi"
  "in_range lo hi (Some 1) \<longleftrightarrow> lo \<le> 1 \<and> 1 < hi"
  "in_range lo hi None \<longleftrightarrow> False"
  using in_range_Some_of_int[of lo hi "numeral n"] in_range_Some_of_int[of lo hi 0]
    in_range_Some_of_int[of lo hi 1]
  by (simp_all add: in_range_def in_list_def)

lemma in_list_numeral [simp]:
  "in_list ks (Some (numeral n)) \<longleftrightarrow> numeral n \<in> set ks"
  "in_list ks (Some 0) \<longleftrightarrow> 0 \<in> set ks"
  "in_list ks (Some 1) \<longleftrightarrow> 1 \<in> set ks"
  "in_list ks None \<longleftrightarrow> False"
  using in_list_Some_of_int[of ks "numeral n"] in_list_Some_of_int[of ks 0]
    in_list_Some_of_int[of ks 1]
  by (simp_all add: in_list_def)

lemma mode0_ex: "mode0 [Some 3, Some 3, Some 9, Some 4] = Inr 3"
  by (simp add: mode0_def mode_def dropna_def Let_def)

lemma ex_fix:
  "FixInvalidValues (SafeRoundToInt float_table (StripObjectColumns (butlast (tl ex_raw)))) =
     Inr ex_stage4"
  unfolding ex_stage3 FixInvalidValues_def
  by (simp add: fix_column_def get_col_def set_col_def columns_def bind_err_def
      keep_or_zero_def keep_or_mode_def mode0_ex somes_def ex_stage4_def)

lemma iqr_bounds_const: "iqr_bounds [Some c, Some c, Some c, Some c] = (Some c, Some c)"
  by (simp add: iqr_bounds_def quantile_def dropna_def nan_op_def Let_def)

lemma iqr_bounds_ex:
  "iqr_bounds [Some 0, Some 100, Some 100, Some 100] = (Some (75 / 2), Some (275 / 2))"
  "iqr_bounds [Some 13, None, Some 13, Some 18] = (Some (37 / 4), Some (77 / 4))"
  "iqr_bounds [Some 33, Some 50, Some 33, Some 33] = (Some (213 / 8), Some (349 / 8))"
  "iqr_bounds [Some 26, Some 30, Some 30, None] = (Some 25, Some 33)"
  "iqr_bounds [Some 4, Some 8, Some 4, Some 2] = (Some (5 / 4), Some (29 / 4))"
  by (simp_all add: iqr_bounds_def quantile_def dropna_def nan_op_def Let_def)

lemma ex_winsorize: "WinsorizeIQR ex_stage4 = Inr ex_stage5"
  by (simp add: WinsorizeIQR_def outlier_columns_def winsorize_column_def get_col_def
      set_col_def columns_def bind_err_def ex_stage4_def somes_def iqr_bounds_const
      iqr_bounds_ex clip_def clip_value_def Let_def ex_stage5_def)

lemma int64_id: "- (2 ^ 63) \<le> k \<Longrightarrow> k < 2 ^ 63 \<Longrightarrow> int64 k = k"
  by (simp add: int64_def)

lemma int64_numeral [simp]:
  "numeral n < (2 ^ 63 :: int) \<Longrightarrow> int64 (numeral n) = numeral n"
  "int64 0 = 0" "int64 1 = 1"
  by (simp_all add: int64_id)

text \<open>
  Beyond the range of int64 the cast wraps around: a weight of \<open>10^19\<close> becomes
  \<open>10^19 - 2^64\<close>.
\<close>

lemma int64_wrap_example:
  "FinalIntConversion [(''Weight'', [Some 10000000000000000000])] =
     Inr [(''Weight'', [Some (- 8446744073709551616)])]"
proof -
  have "round_half_even 10000000000000000000 = 10000000000000000000" by simp
  moreover have "int64 10000000000000000000 = - 8446744073709551616"
    by (simp add: int64_def)
  ultimately show ?thesis by (simp add: FinalIntConversion_def)
qed

lemma median_ex:
  "median [Some c, Some c, Some c, Some c] = Some c"
  "median [Some 23, Some 23, Some 0, Some 7] = Some 15"
  "median [Some 7, Some 7, Some 7, Some 0] = Some 7"
  "median [Some 3, Some 3, Some 3, Some 4] = Some 3"
  "median [Some (75 / 2), Some 100, Some 100, Some 100] = Some 100"
  "median [Some 13, None, Some 13, Some 18] = Some 13"
  "median [Some 33, Some (349 / 8), Some 33, Some 33] = Some 33"
  "median [Some 26, Some 30, Some 30, None] = Some 30"
  "median [Some 4, Some (29 / 4), Some 4, Some 2] = Some 4"
  by (simp_all add: median_def dropna_def Let_def)

lemma rhe_frac_ex:
  "round_half_even (75 / 2) = 38" "round_half_even (349 / 8) = 44" "round_half_even (29 / 4) = 7"
  by (simp_all add: round_half_even_def Let_def)

lemma ex_fill_final: "FinalIntConversion (FillNaWithMedian ex_stage5) = Inr ex_clean"
  by (simp add: FinalIntConversion_def FillNaWithMedian_def fillna_def ex_stage5_def somes_def
      median_ex rhe_frac_ex ex_clean_def)

lemma ex_stages_1_to_4: "stages_1_to_4 float_table ex_raw = Inr ex_stage4"
  by (simp add: stages_1_to_4_def ex_drop bind_err_def ex_fix)

lemma ex_stages_1_to_5: "stages_1_to_5 float_table ex_raw = Inr ex_stage5"
  by (simp add: stages_1_to_5_def ex_stages_1_to_4 bind_err_def ex_winsorize)

lemma ex_pipeline: "create_preprocessing_pipeline float_table ex_raw = Inr ex_clean"
  by (simp add: create_preprocessing_pipeline_def ex_stages_1_to_5 bind_err_def ex_fill_final)

lemma ex_rerun:
  "create_preprocessing_pipeline float_table (as_raw ex_clean) =
     Inl (KeyError [''ID'', ''mixed_type_col''])"
  by (simp add: create_preprocessing_pipeline_def stages_1_to_5_def stages_1_to_4_def
      DropColumns_def dropped_labels_def columns_def as_raw_def ex_clean_def bind_err_def)

lemma ex_clean_bounds:
  "iqr_bounds [Some 38, Some 100, Some 100, Some 100] = (Some (245 / 4), Some (493 / 4))"
  by (simp add: iqr_bounds_def quantile_def dropna_def nan_op_def Let_def)

subsection \<open>Frames\<close>

lemma columns_set_col: "c \<in> set (columns df) \<Longrightarrow> columns (set_col df c xs) = columns df"
  by (induction df) (auto simp: set_col_def columns_def)

lemma map_of_map_cols:
  "map_of (map (\<lambda>(l, col). (l, f l col)) df) k = map_option (f k) (map_of df k)"
  by (induction df) auto

lemma columns_map_cols: "columns (map (\<lambda>(l, col). (l, f l col)) df) = columns df"
  by (induction df) (auto simp: columns_def)

lemma map_of_set_col:
  "c \<in> set (columns df) \<Longrightarrow>
     map_of (set_col df c xs) l = (if l = c then Some xs else map_of df l)"
proof -
  assume c: "c \<in> set (columns df)"
  then have "map_of df c \<noteq> None"
    by (simp add: columns_def map_of_eq_None_iff)
  moreover have "map_of (map (\<lambda>(k, col). if k = c then (k, xs) else (k, col)) df) l =
        (if l = c then map_option (\<lambda>_. xs) (map_of df l) else map_of df l)"
    by (induction df) auto
  ultimately show ?thesis using c by (auto simp: set_col_def)
qed

lemma get_col_Inr: "get_col df c = Inr xs \<longleftrightarrow> map_of df c = Some xs"
  by (simp add: get_col_def split: option.splits)

lemma map_of_Some_columns: "map_of df c = Some xs \<Longrightarrow> c \<in> set (columns df)"
  by (induction df) (auto simp: columns_def split: if_splits)

lemma columns_as_raw: "columns (as_raw X) = columns X"
  unfolding as_raw_def by (rule columns_map_cols)

subsection \<open>Stages 6 and 7\<close>

lemma columns_FillNaWithMedian: "columns (FillNaWithMedian X) = columns X"
  unfolding FillNaWithMedian_def by (rule columns_map_cols)

lemma map_of_FillNaWithMedian:
  "map_of (FillNaWithMedian X) l = map_option (\<lambda>col. fillna (median col) col) (map_of X l)"
  unfolding FillNaWithMedian_def by (rule map_of_map_cols)

lemma FinalIntConversion_Inr:
  assumes "FinalIntConversion X = Inr Y"
  shows "Y = map (\<lambda>(l, col). (l, map (map_option (\<lambda>v. of_int (int64 (round_half_even v)))) col)) X"
    and "\<And>l col. (l, col) \<in> set X \<Longrightarrow> None \<notin> set col"
  using assms
  by (auto simp: FinalIntConversion_def list_ex_iff split: if_splits)

lemma fillna_nth:
  "i < length col \<Longrightarrow>
     fillna m col ! i = (case col ! i of Some v \<Rightarrow> Some v | None \<Rightarrow> m)"
  by (cases m) (auto simp: fillna_def split: option.splits)

lemma length_fillna [simp]: "length (fillna m col) = length col"
  by (cases m) (simp_all add: fillna_def)

subsection \<open>Column labels through the stages\<close>

lemma columns_StripObjectColumns: "columns (StripObjectColumns X) = columns X"
  unfolding StripObjectColumns_def by (rule columns_map_cols)

lemma fix_column_Inr:
  assumes "fix_column c f df = Inr df'"
  shows "\<exists>xs ys. map_of df c = Some xs \<and> apply_series (f xs) xs = Inr ys \<and>
           df' = set_col df c ys"
  using assms by (auto simp: fix_column_def bind_err_eq_Inr get_col_Inr)

lemma fix_column_columns: "fix_column c f df = Inr df' \<Longrightarrow> columns df' = columns df"
  by (auto dest!: fix_column_Inr simp: columns_set_col map_of_Some_columns)

lemma fix_column_map_of:
  assumes "fix_column c f df = Inr df'"
  shows "\<exists>xs ys. map_of df c = Some xs \<and> apply_series (f xs) xs = Inr ys \<and>
           (\<forall>l. map_of df' l = (if l = c then Some ys else map_of df l))"
proof -
  from fix_column_Inr[OF assms] obtain xs ys where
    h: "map_of df c = Some xs" "apply_series (f xs) xs = Inr ys" "df' = set_col df c ys"
    by blast
  have "\<forall>l. map_of df' l = (if l = c then Some ys else map_of df l)"
    unfolding h(3) using map_of_set_col[OF map_of_Some_columns[OF h(1)]] by blast
  with h show ?thesis by blast
qed

lemma FixInvalidValues_steps:
  assumes "FixInvalidValues X = Inr Y"
  shows "\<exists>df1 df2 df3 df4 df5 df6 df7.
     fix_column ''Reason for absence'' (keep_or_zero (in_range 0 29)) X = Inr df1 \<and>
     fix_column ''Month of absence'' (keep_or_zero (in_range 0 13)) df1 = Inr df2 \<and>
     fix_column ''Day of the week'' (keep_or_mode (in_range 2 7)) df2 = Inr df3 \<and>
     fix_column ''Seasons'' (keep_or_mode (in_range 1 5)) df3 = Inr df4 \<and>
     fix_column ''Education'' (keep_or_mode (in_range 1 5)) df4 = Inr df5 \<and>
     fix_column ''Disciplinary failure'' (keep_or_mode (in_list [0, 1])) df5 = Inr df6 \<and>
     fix_column ''Social drinker'' (keep_or_mode (in_list [0, 1])) df6 = Inr df7 \<and>
     fix_column ''Social smoker'' (keep_or_mode (in_list [0, 1])) df7 = Inr Y"
  using assms unfolding FixInvalidValues_def bind_err_eq_Inr by blast

lemma FixInvalidValues_columns:
  assumes "FixInvalidValues X = Inr Y"
  shows "columns Y = columns X"
proof -
  from FixInvalidValues_steps[OF assms] obtain df1 df2 df3 df4 df5 df6 df7 where
    "fix_column ''Reason for absence'' (keep_or_zero (in_range 0 29)) X = Inr df1"
    "fix_column ''Month of absence'' (keep_or_zero (in_range 0 13)) df1 = Inr df2"
    "fix_column ''Day of the week'' (keep_or_mode (in_range 2 7)) df2 = Inr df3"
    "fix_column ''Seasons'' (keep_or_mode (in_range 1 5)) df3 = Inr df4"
    "fix_column ''Education'' (keep_or_mode (in_range 1 5)) df4 = Inr df5"
    "fix_column ''Disciplinary failure'' (keep_or_mode (in_list [0, 1])) df5 = Inr df6"
    "fix_column ''Social drinker'' (keep_or_mode (in_list [0, 1])) df6 = Inr df7"
    "fix_column ''Social smoker'' (keep_or_mode (in_list [0, 1])) df7 = Inr Y"
    by blast
  then show ?thesis by (simp add: fix_column_columns)
qed

lemma winsorize_column_Inr:
  assumes "winsorize_column c df = Inr df'"
  shows "\<exists>xs. map_of df c = Some xs \<and> df' = set_col df c (winsorized xs)"
  using assms by (auto simp: winsorize_column_def bind_err_eq_Inr get_col_Inr winsorized_def)

lemma fold_bind_Inl: "fold (\<lambda>col r. bind_err r (g col)) cs (Inl e) = Inl e"
  by (induction cs) (simp_all add: bind_err_def)

lemma winsorize_fold:
  assumes "fold (\<lambda>col r. bind_err r (winsorize_column col)) cs (Inr X) = Inr Y"
    and "distinct cs"
  shows "columns Y = columns X \<and>
         (\<forall>l. map_of Y l =
            (if l \<in> set cs then map_option winsorized (map_of X l) else map_of X l)) \<and>
         (\<forall>l\<in>set cs. map_of X l \<noteq> None)"
  using assms
proof (induction cs arbitrary: X)
  case Nil
  then show ?case by simp
next
  case (Cons c cs)
  show ?case
  proof (cases "winsorize_column c X")
    case (Inl e)
    with Cons.prems(1) show ?thesis by (simp add: bind_err_Inr fold_bind_Inl)
  next
    case (Inr X1)
    from winsorize_column_Inr[OF Inr] obtain xs where
      xs: "map_of X c = Some xs" "X1 = set_col X c (winsorized xs)" by blast
    have cX: "c \<in> set (columns X)" using xs(1) by (rule map_of_Some_columns)
    have m1: "map_of X1 l = (if l = c then Some (winsorized xs) else map_of X l)" for l
      unfolding xs(2) by (rule map_of_set_col[OF cX])
    have c1: "columns X1 = columns X" unfolding xs(2) by (rule columns_set_col[OF cX])
    from Cons.prems Inr have f: "fold (\<lambda>col r. bind_err r (winsorize_column col)) cs (Inr X1) = Inr Y"
      by (simp add: bind_err_Inr)
    from Cons.prems(2) have d: "distinct cs" "c \<notin> set cs" by simp_all
    from Cons.IH[OF f d(1)] have ih: "columns Y = columns X1"
      "\<And>l. map_of Y l = (if l \<in> set cs then map_option winsorized (map_of X1 l) else map_of X1 l)"
      "\<forall>l\<in>set cs. map_of X1 l \<noteq> None"
      by blast+
    have "map_of Y l = (if l \<in> set (c # cs) then map_option winsorized (map_of X l) else map_of X l)"
      for l
      using ih(2)[of l] m1[of l] d(2) xs(1) by auto
    moreover have "\<forall>l\<in>set (c # cs). map_of X l \<noteq> None"
    proof
      fix l assume l: "l \<in> set (c # cs)"
      show "map_of X l \<noteq> None"
      proof (cases "l = c")
        case True
        then show ?thesis using xs(1) by simp
      next
        case False
        with l have "l \<in> set cs" by simp
        with ih(3) have "map_of X1 l \<noteq> None" by blast
        then show ?thesis using m1[of l] False by simp
      qed
    qed
    ultimately show ?thesis using ih(1) c1 by simp
  qed
qed

lemma distinct_outlier_columns: "distinct outlier_columns"
  by (simp add: outlier_columns_def)

lemma WinsorizeIQR_Inr:
  assumes "WinsorizeIQR X = Inr Y"
  shows "columns Y = columns X"
    and "\<And>l. map_of Y l =
            (if l \<in> set outlier_columns then map_option winsorized (map_of X l) else map_of X l)"
    and "\<And>l. l \<in> set outlier_columns \<Longrightarrow> map_of X l \<noteq> None"
  using winsorize_fold[OF assms[unfolded WinsorizeIQR_def] distinct_outlier_columns]
  by blast+

lemma FinalIntConversion_columns: "FinalIntConversion X = Inr Y \<Longrightarrow> columns Y = columns X"
  by (auto dest!: FinalIntConversion_Inr(1) simp: columns_map_cols)

lemma DropColumns_columns:
  "DropColumns X = Inr X1 \<Longrightarrow> columns X1 = filter (\<lambda>l. l \<notin> set dropped_labels) (columns X)"
  by (simp add: DropColumns_Inr_iff columns_filter)

lemma pipeline_columns:
  assumes "create_preprocessing_pipeline F X = Inr Y"
  shows "columns Y = filter (\<lambda>l. l \<notin> set dropped_labels) (columns X)"
proof -
  from assms obtain X1 X4 X5 where
    s: "DropColumns X = Inr X1"
      "FixInvalidValues (SafeRoundToInt F (StripObjectColumns X1)) = Inr X4"
      "WinsorizeIQR X4 = Inr X5" "FinalIntConversion (FillNaWithMedian X5) = Inr Y"
    by (auto simp: create_preprocessing_pipeline_def stages_1_to_5_def stages_1_to_4_def
        bind_err_eq_Inr)
  have "columns Y = columns X1"
    using FinalIntConversion_columns[OF s(4)] WinsorizeIQR_Inr(1)[OF s(3)]
      FixInvalidValues_columns[OF s(2)]
    by (simp add: columns_FillNaWithMedian columns_SafeRoundToInt columns_StripObjectColumns)
  then show ?thesis using DropColumns_columns[OF s(1)] by simp
qed

text \<open>
  Claim C3, amended. A frame the pipeline has produced has no \<^verbatim>\<open>ID\<close> and no
  \<^verbatim>\<open>mixed_type_col\<close> column, so applying the pipeline to it again never succeeds:
  stage 1 raises the KeyError that names both labels, and no frame is produced.
\<close>

theorem rerun_raises_at_stage_1:
  assumes "create_preprocessing_pipeline F X = Inr Y"
  shows "''ID'' \<notin> set (columns Y) \<and> ''mixed_type_col'' \<notin> set (columns Y) \<and>
         create_preprocessing_pipeline F' (as_raw Y) = Inl (KeyError [''ID'', ''mixed_type_col''])"
proof -
  have c: "columns Y = filter (\<lambda>l. l \<notin> set dropped_labels) (columns X)"
    by (rule pipeline_columns[OF assms])
  have n: "''ID'' \<notin> set (columns Y)" "''mixed_type_col'' \<notin> set (columns Y)"
    unfolding c by (simp_all add: dropped_labels_def)
  then have "DropColumns (as_raw Y) = Inl (KeyError [''ID'', ''mixed_type_col''])"
    by (simp add: DropColumns_def columns_as_raw dropped_labels_def)
  then have "create_preprocessing_pipeline F' (as_raw Y) = Inl (KeyError [''ID'', ''mixed_type_col''])"
    by (simp add: create_preprocessing_pipeline_def stages_1_to_5_def stages_1_to_4_def
        bind_err_def)
  with n show ?thesis by simp
qed

text \<open>
  The claim as stated fails on the example: the first run succeeds, the second run on
  its output raises.
\<close>

theorem second_run_on_example_raises:
  "create_preprocessing_pipeline float_table ex_raw = Inr ex_clean \<and>
   create_preprocessing_pipeline float_table (as_raw ex_clean) =
     Inl (KeyError [''ID'', ''mixed_type_col''])"
  using ex_pipeline ex_rerun by simp

theorem rerun_raises_at_stage_1_witness:
  "create_preprocessing_pipeline float_table ex_raw = Inr ex_clean \<and>
   ''ID'' \<notin> set (columns ex_clean) \<and> ''mixed_type_col'' \<notin> set (columns ex_clean) \<and>
   create_preprocessing_pipeline float_table (as_raw ex_clean) =
     Inl (KeyError [''ID'', ''mixed_type_col''])"
  using rerun_raises_at_stage_1[OF ex_pipeline, of float_table] ex_pipeline by simp

subsection \<open>Stage 4: domain repair\<close>

lemma apply_keep_or_zero:
  "apply_series (keep_or_zero valid xs) zs = Inr (map (\<lambda>x. if valid x then x else Some 0) zs)"
  by (induction zs) (simp_all add: keep_or_zero_def bind_err_def)

lemma apply_keep_or_mode_valid:
  "\<forall>x\<in>set zs. valid x \<Longrightarrow> apply_series (keep_or_mode valid xs) zs = Inr zs"
  by (induction zs) (simp_all add: keep_or_mode_def bind_err_def)

lemma apply_keep_or_mode_Inr:
  "mode0 xs = Inr m \<Longrightarrow>
     apply_series (keep_or_mode valid xs) zs = Inr (map (\<lambda>x. if valid x then x else Some m) zs)"
  by (induction zs) (simp_all add: keep_or_mode_def bind_err_def)

lemma apply_keep_or_mode_Inl:
  "mode0 xs = Inl e \<Longrightarrow> \<exists>x\<in>set zs. \<not> valid x \<Longrightarrow>
     apply_series (keep_or_mode valid xs) zs = Inl e"
  by (induction zs) (auto simp: keep_or_mode_def bind_err_def split: sum.splits)

lemma count_list_dropna: "count_list (dropna xs) v = count_list xs (Some v)"
  by (induction xs) (auto simp: dropna_def split: option.splits)

lemma set_dropna: "v \<in> set (dropna xs) \<longleftrightarrow> Some v \<in> set xs"
  by (induction xs) (auto simp: dropna_def split: option.splits)

lemma fold_max_ge:
  fixes ys :: "nat list"
  shows "y \<in> set ys \<Longrightarrow> y \<le> fold max ys 0"
proof -
  assume y: "y \<in> set ys"
  have "fold max ys 0 = Max (set (0 # ys))" by (rule Max.set_eq_fold[symmetric])
  moreover have "y \<le> Max (set (0 # ys))" using y by (intro Max_ge) simp_all
  ultimately show ?thesis by simp
qed

lemma mode0_most_frequent:
  assumes "mode0 xs = Inr m"
  shows "Some m \<in> set xs"
    and "count_list xs (Some v) \<le> count_list xs (Some m)"
    and "count_list xs (Some v) = count_list xs (Some m) \<Longrightarrow> m \<le> v"
proof -
  define vs where "vs = dropna xs"
  define top where "top = fold max (map (count_list vs) vs) 0"
  define L where "L = sort (remdups (filter (\<lambda>v. count_list vs v = top) vs))"
  have modeL: "mode xs = L" by (simp add: mode_def Let_def vs_def top_def L_def)
  from assms obtain ms where L: "L = m # ms"
    by (auto simp: mode0_def modeL split: list.splits)
  have setL: "set L = {v \<in> set vs. count_list vs v = top}" by (auto simp: L_def)
  have "m \<in> set L" by (simp add: L)
  then have m: "m \<in> set vs" "count_list vs m = top" by (auto simp: setL)
  show "Some m \<in> set xs" using m(1) by (simp add: vs_def set_dropna)
  have le: "count_list vs w \<le> top" for w
  proof (cases "w \<in> set vs")
    case True
    then show ?thesis unfolding top_def by (intro fold_max_ge) simp
  next
    case False
    then show ?thesis by (simp add: count_list_0_iff)
  qed
  show "count_list xs (Some v) \<le> count_list xs (Some m)"
    using le[of v] m(2) by (simp add: vs_def count_list_dropna)
  show "m \<le> v" if "count_list xs (Some v) = count_list xs (Some m)"
  proof -
    from that have c: "count_list vs v = top" using m(2) by (simp add: vs_def count_list_dropna)
    have "count_list vs m \<noteq> 0" using m(1) count_list_0_iff[of vs m] by simp
    then have "count_list vs v \<noteq> 0" using c m(2) by simp
    then have "v \<in> set vs" by (simp add: count_list_0_iff)
    then have "v \<in> set L" using c by (simp add: setL)
    moreover have "sorted L" by (simp add: L_def)
    ultimately show ?thesis unfolding L by auto
  qed
qed

lemma keep_or_zero_repaired:
  "apply_series (keep_or_zero valid xs) xs = Inr ys \<Longrightarrow> zero_repaired valid xs ys"
  by (simp add: apply_keep_or_zero zero_repaired_def)

lemma keep_or_mode_repaired:
  assumes "apply_series (keep_or_mode valid xs) xs = Inr ys"
  shows "mode_repaired valid xs ys"
proof (cases "\<forall>x\<in>set xs. valid x")
  case True
  then have ys: "ys = xs" using assms by (simp add: apply_keep_or_mode_valid)
  have "map (\<lambda>x. if valid x then x else Some m) xs = xs" for m
    using True by (simp add: map_idI)
  then show ?thesis
    unfolding mode_repaired_def ys most_frequent_valid_def
    using True mode0_most_frequent by auto
next
  case False
  show ?thesis
  proof (cases "mode0 xs")
    case (Inl e)
    with False assms show ?thesis by (simp add: apply_keep_or_mode_Inl)
  next
    case (Inr m)
    then have ys: "ys = map (\<lambda>x. if valid x then x else Some m) xs"
      using assms by (simp add: apply_keep_or_mode_Inr)
    show ?thesis
      unfolding mode_repaired_def most_frequent_valid_def
      using Inr mode0_most_frequent[OF Inr] by (auto simp: ys)
  qed
qed

text \<open>
  Claim C1, amended. When stage 4 returns a frame, the frame has the columns of its
  input and every column other than the eight categorical ones is unchanged. In
  \<^verbatim>\<open>Reason for absence\<close> and \<^verbatim>\<open>Month of absence\<close> every cell outside the domain has
  become 0 and the other cells are unchanged. In each of the six other categorical
  columns the cells in the domain are unchanged, and when the mode of the column as
  it enters the stage lies in the domain, that mode is the most frequent value of
  the domain in the column (the smallest one at a tie), every cell outside the
  domain has become it, and the column is then within its domain.
\<close>

theorem FixInvalidValues_repairs_domains:
  assumes "FixInvalidValues X = Inr Y"
  shows "columns Y = columns X \<and>
    (\<forall>l. l \<notin> set categorical_candidates \<longrightarrow> map_of Y l = map_of X l) \<and>
    column_pair X Y ''Reason for absence'' (zero_repaired (in_range 0 29)) \<and>
    column_pair X Y ''Month of absence'' (zero_repaired (in_range 0 13)) \<and>
    column_pair X Y ''Day of the week'' (mode_repaired (in_range 2 7)) \<and>
    column_pair X Y ''Seasons'' (mode_repaired (in_range 1 5)) \<and>
    column_pair X Y ''Education'' (mode_repaired (in_range 1 5)) \<and>
    column_pair X Y ''Disciplinary failure'' (mode_repaired (in_list [0, 1])) \<and>
    column_pair X Y ''Social drinker'' (mode_repaired (in_list [0, 1])) \<and>
    column_pair X Y ''Social smoker'' (mode_repaired (in_list [0, 1]))"
proof -
  from FixInvalidValues_steps[OF assms] obtain df1 df2 df3 df4 df5 df6 df7 where
    s1: "fix_column ''Reason for absence'' (keep_or_zero (in_range 0 29)) X = Inr df1" and
    s2: "fix_column ''Month of absence'' (keep_or_zero (in_range 0 13)) df1 = Inr df2" and
    s3: "fix_column ''Day of the week'' (keep_or_mode (in_range 2 7)) df2 = Inr df3" and
    s4: "fix_column ''Seasons'' (keep_or_mode (in_range 1 5)) df3 = Inr df4" and
    s5: "fix_column ''Education'' (keep_or_mode (in_range 1 5)) df4 = Inr df5" and
    s6: "fix_column ''Disciplinary failure'' (keep_or_mode (in_list [0, 1])) df5 = Inr df6" and
    s7: "fix_column ''Social drinker'' (keep_or_mode (in_list [0, 1])) df6 = Inr df7" and
    s8: "fix_column ''Social smoker'' (keep_or_mode (in_list [0, 1])) df7 = Inr Y"
    by blast
  from fix_column_map_of[OF s1] obtain xs1 ys1 where
    x1: "map_of X ''Reason for absence'' = Some xs1" and
    a1: "apply_series (keep_or_zero (in_range 0 29) xs1) xs1 = Inr ys1" and
    m1: "\<And>l. map_of df1 l = (if l = ''Reason for absence'' then Some ys1 else map_of X l)"
    by blast
  from fix_column_map_of[OF s2] obtain xs2 ys2 where
    x2: "map_of df1 ''Month of absence'' = Some xs2" and
    a2: "apply_series (keep_or_zero (in_range 0 13) xs2) xs2 = Inr ys2" and
    m2: "\<And>l. map_of df2 l = (if l = ''Month of absence'' then Some ys2 else map_of df1 l)"
    by blast
  from fix_column_map_of[OF s3] obtain xs3 ys3 where
    x3: "map_of df2 ''Day of the week'' = Some xs3" and
    a3: "apply_series (keep_or_mode (in_range 2 7) xs3) xs3 = Inr ys3" and
    m3: "\<And>l. map_of df3 l = (if l = ''Day of the week'' then Some ys3 else map_of df2 l)"
    by blast
  from fix_column_map_of[OF s4] obtain xs4 ys4 where
    x4: "map_of df3 ''Seasons'' = Some xs4" and
    a4: "apply_series (keep_or_mode (in_range 1 5) xs4) xs4 = Inr ys4" and
    m4: "\<And>l. map_of df4 l = (if l = ''Seasons'' then Some ys4 else map_of df3 l)"
    by blast
  from fix_column_map_of[OF s5] obtain xs5 ys5 where
    x5: "map_of df4 ''Education'' = Some xs5" and
    a5: "apply_series (keep_or_mode (in_range 1 5) xs5) xs5 = Inr ys5" and
    m5: "\<And>l. map_of df5 l = (if l = ''Education'' then Some ys5 else map_of df4 l)"
    by blast
  from fix_column_map_of[OF s6] obtain xs6 ys6 where
    x6: "map_of df5 ''Disciplinary failure'' = Some xs6" and
    a6: "apply_series (keep_or_mode (in_list [0, 1]) xs6) xs6 = Inr ys6" and
    m6: "\<And>l. map_of df6 l = (if l = ''Disciplinary failure'' then Some ys6 else map_of df5 l)"
    by blast
  from fix_column_map_of[OF s7] obtain xs7 ys7 where
    x7: "map_of df6 ''Social drinker'' = Some xs7" and
    a7: "apply_series (keep_or_mode (in_list [0, 1]) xs7) xs7 = Inr ys7" and
    m7: "\<And>l. map_of df7 l = (if l = ''Social drinker'' then Some ys7 else map_of df6 l)"
    by blast
  from fix_column_map_of[OF s8] obtain xs8 ys8 where
    x8: "map_of df7 ''Social smoker'' = Some xs8" and
    a8: "apply_series (keep_or_mode (in_list [0, 1]) xs8) xs8 = Inr ys8" and
    m8: "\<And>l. map_of Y l = (if l = ''Social smoker'' then Some ys8 else map_of df7 l)"
    by blast
  have other: "\<forall>l. l \<notin> set categorical_candidates \<longrightarrow> map_of Y l = map_of X l"
    by (simp add: categorical_candidates_def m1 m2 m3 m4 m5 m6 m7 m8)
  have X1: "map_of X ''Reason for absence'' = Some xs1"
    using x1 .
  have Y1: "map_of Y ''Reason for absence'' = Some ys1"
    by (simp add: m1 m2 m3 m4 m5 m6 m7 m8)
  have c1: "column_pair X Y ''Reason for absence'' (zero_repaired (in_range 0 29))"
    unfolding column_pair_def using X1 Y1 keep_or_zero_repaired[OF a1] by blast
  have X2: "map_of X ''Month of absence'' = Some xs2"
    using x2 by (simp add: m1)
  have Y2: "map_of Y ''Month of absence'' = Some ys2"
    by (simp add: m2 m3 m4 m5 m6 m7 m8)
  have c2: "column_pair X Y ''Month of absence'' (zero_repaired (in_range 0 13))"
    unfolding column_pair_def using X2 Y2 keep_or_zero_repaired[OF a2] by blast
  have X3: "map_of X ''Day of the week'' = Some xs3"
    using x3 by (simp add: m1 m2)
  have Y3: "map_of Y ''Day of the week'' = Some ys3"
    by (simp add: m3 m4 m5 m6 m7 m8)
  have c3: "column_pair X Y ''Day of the week'' (mode_repaired (in_range 2 7))"
    unfolding column_pair_def using X3 Y3 keep_or_mode_repaired[OF a3] by blast
  have X4: "map_of X ''Seasons'' = Some xs4"
    using x4 by (simp add: m1 m2 m3)
  have Y4: "map_of Y ''Seasons'' = Some ys4"
    by (simp add: m4 m5 m6 m7 m8)
  have c4: "column_pair X Y ''Seasons'' (mode_repaired (in_range 1 5))"
    unfolding column_pair_def using X4 Y4 keep_or_mode_repaired[OF a4] by blast
  have X5: "map_of X ''Education'' = Some xs5"
    using x5 by (simp add: m1 m2 m3 m4)
  have Y5: "map_of Y ''Education'' = Some ys5"
    by (simp add: m5 m6 m7 m8)
  have c5: "column_pair X Y ''Education'' (mode_repaired (in_range 1 5))"
    unfolding column_pair_def using X5 Y5 keep_or_mode_repaired[OF a5] by blast
  have X6: "map_of X ''Disciplinary failure'' = Some xs6"
    using x6 by (simp add: m1 m2 m3 m4 m5)
  have Y6: "map_of Y ''Disciplinary failure'' = Some ys6"
    by (simp add: m6 m7 m8)
  have c6: "column_pair X Y ''Disciplinary failure'' (mode_repaired (in_list [0, 1]))"
    unfolding column_pair_def using X6 Y6 keep_or_mode_repaired[OF a6] by blast
  have X7: "map_of X ''Social drinker'' = Some xs7"
    using x7 by (simp add: m1 m2 m3 m4 m5 m6)
  have Y7: "map_of Y ''Social drinker'' = Some ys7"
    by (simp add: m7 m8)
  have c7: "column_pair X Y ''Social drinker'' (mode_repaired (in_list [0, 1]))"
    unfolding column_pair_def using X7 Y7 keep_or_mode_repaired[OF a7] by blast
  have X8: "map_of X ''Social smoker'' = Some xs8"
    using x8 by (simp add: m1 m2 m3 m4 m5 m6 m7)
  have Y8: "map_of Y ''Social smoker'' = Some ys8"
    by (simp add: m8)
  have c8: "column_pair X Y ''Social smoker'' (mode_repaired (in_list [0, 1]))"
    unfolding column_pair_def using X8 Y8 keep_or_mode_repaired[OF a8] by blast
  show ?thesis
    using FixInvalidValues_columns[OF assms] other c1 c2 c3 c4 c5 c6 c7 c8
    by (intro conjI) assumption+
qed

lemma ex_rounded_fix: "FixInvalidValues ex_rounded = Inr ex_stage4"
  using ex_fix unfolding ex_stage3 ex_rounded_def .

text \<open>
  The claim as stated fails on the example: the reason 99 is outside the domain and
  23 is the most frequent value of the domain in the column, but the cell becomes 0.
\<close>

theorem invalid_reason_becomes_zero_not_mode:
  "FixInvalidValues ex_rounded = Inr ex_stage4 \<and>
   map_of ex_rounded ''Reason for absence'' = Some [Some 23, Some 23, Some 99, Some 7] \<and>
   \<not> in_range 0 29 (Some 99) \<and>
   most_frequent_valid (in_range 0 29) [Some 23, Some 23, Some 99, Some 7] 23 \<and>
   map_of ex_stage4 ''Reason for absence'' = Some [Some 23, Some 23, Some 0, Some 7]"
proof -
  have "most_frequent_valid (in_range 0 29) [Some 23, Some 23, Some 99, Some 7] 23"
    unfolding most_frequent_valid_def by auto
  then show ?thesis
    using ex_rounded_fix by (simp add: ex_rounded_def ex_stage4_def somes_def)
qed

theorem FixInvalidValues_repairs_domains_witness:
  "FixInvalidValues ex_rounded = Inr ex_stage4 \<and>
   map_of ex_rounded ''Day of the week'' = Some [Some 3, Some 3, Some 9, Some 4] \<and>
   mode0 [Some 3, Some 3, Some 9, Some 4] = Inr 3 \<and>
   in_range 2 7 (Some 3) \<and>
   (\<exists>ys. map_of ex_stage4 ''Day of the week'' = Some ys \<and>
         ys = [Some 3, Some 3, Some 3, Some 4])"
proof -
  let ?xs = "[Some 3, Some 3, Some 9, Some (4::rat)]"
  have x: "map_of ex_rounded ''Day of the week'' = Some ?xs"
    by (simp add: ex_rounded_def somes_def)
  have v: "in_range 2 7 (Some 3)" by simp
  from FixInvalidValues_repairs_domains[OF ex_rounded_fix]
  have "column_pair ex_rounded ex_stage4 ''Day of the week'' (mode_repaired (in_range 2 7))"
    by blast
  then obtain ys where ys: "map_of ex_stage4 ''Day of the week'' = Some ys"
    "mode_repaired (in_range 2 7) ?xs ys"
    unfolding column_pair_def using x by auto
  from ys(2) mode0_ex v have "ys = map (\<lambda>x. if in_range 2 7 x then x else Some 3) ?xs"
    unfolding mode_repaired_def by blast
  then have "ys = [Some 3, Some 3, Some 3, Some 4]" by simp
  with ys(1) have "\<exists>ys. map_of ex_stage4 ''Day of the week'' = Some ys \<and>
         ys = [Some 3, Some 3, Some 3, Some 4]" by simp
  then show ?thesis using ex_rounded_fix x mode0_ex v by (intro conjI) assumption+
qed

subsection \<open>Stage 5: quantiles and clipping\<close>

lemma sort_Nil_iff [simp]: "sort ys = [] \<longleftrightarrow> ys = []"
  by (metis length_0_conv length_sort)

lemma quantile_lerp:
  "quantile p xs =
     (if dropna xs = [] then None
      else Some (lerp_at (sort (dropna xs)) (p * of_nat (length (dropna xs) - 1))))"
  by (simp add: quantile_def Let_def lerp_at_def)

lemma interp_bounds:
  fixes s :: "rat list"
  assumes srt: "sorted s" and h0: "0 \<le> h" and hn: "h \<le> of_nat (length s - 1)" and ne: "s \<noteq> []"
  defines "j \<equiv> nat \<lfloor>h\<rfloor>"
  defines "v \<equiv> (if j + 1 < length s then s ! j + (s ! (j + 1) - s ! j) * (h - of_int \<lfloor>h\<rfloor>)
                 else s ! (length s - 1))"
  shows "j \<le> length s - 1" and "s ! j \<le> v" and "v \<le> s ! min (j + 1) (length s - 1)"
proof -
  have fl: "0 \<le> \<lfloor>h\<rfloor>" using h0 by simp
  have "\<lfloor>h\<rfloor> \<le> int (length s - 1)"
    using hn by (metis floor_mono floor_of_nat)
  then show jl: "j \<le> length s - 1" unfolding j_def using fl by linarith
  have g: "0 \<le> h - of_int \<lfloor>h\<rfloor>" "h - of_int \<lfloor>h\<rfloor> < 1" by linarith+
  show "s ! j \<le> v"
  proof (cases "j + 1 < length s")
    case True
    then have "s ! j \<le> s ! (j + 1)" using srt by (intro sorted_nth_mono) simp_all
    then have "0 \<le> (s ! (j + 1) - s ! j) * (h - of_int \<lfloor>h\<rfloor>)" using g(1) by simp
    then show ?thesis using True by (simp add: v_def)
  next
    case False
    with jl have "j = length s - 1" by linarith
    then show ?thesis using False by (simp add: v_def)
  qed
  show "v \<le> s ! min (j + 1) (length s - 1)"
  proof (cases "j + 1 < length s")
    case True
    then have d: "0 \<le> s ! (j + 1) - s ! j" using srt by (simp add: sorted_nth_mono)
    have "(s ! (j + 1) - s ! j) * (h - of_int \<lfloor>h\<rfloor>) \<le> (s ! (j + 1) - s ! j) * 1"
      using d g(2) by (intro mult_left_mono) simp_all
    moreover have "min (j + 1) (length s - 1) = j + 1" using True by simp
    ultimately show ?thesis using True by (simp add: v_def)
  next
    case False
    then have "min (j + 1) (length s - 1) = length s - 1" by simp
    then show ?thesis using False by (simp add: v_def)
  qed
qed

lemma interp_mono:
  fixes s :: "rat list"
  assumes srt: "sorted s" and h0: "0 \<le> h" and hh: "h \<le> h'"
    and hn: "h' \<le> of_nat (length s - 1)" and ne: "s \<noteq> []"
  shows "lerp_at s h \<le> lerp_at s h'"
proof -
  have h0': "0 \<le> h'" and hn0: "h \<le> of_nat (length s - 1)" using h0 hh hn by linarith+
  note b = interp_bounds[OF srt h0 hn0 ne]
  note b' = interp_bounds[OF srt h0' hn ne]
  have fl: "\<lfloor>h\<rfloor> \<le> \<lfloor>h'\<rfloor>" using hh by (rule floor_mono)
  show ?thesis
  proof (cases "\<lfloor>h\<rfloor> = \<lfloor>h'\<rfloor>")
    case True
    show ?thesis
    proof (cases "nat \<lfloor>h\<rfloor> + 1 < length s")
      case T: True
      then have d: "0 \<le> s ! (nat \<lfloor>h\<rfloor> + 1) - s ! nat \<lfloor>h\<rfloor>"
        using srt by (simp add: sorted_nth_mono)
      have "(s ! (nat \<lfloor>h\<rfloor> + 1) - s ! nat \<lfloor>h\<rfloor>) * (h - of_int \<lfloor>h\<rfloor>)
              \<le> (s ! (nat \<lfloor>h\<rfloor> + 1) - s ! nat \<lfloor>h\<rfloor>) * (h' - of_int \<lfloor>h\<rfloor>)"
        using d hh by (intro mult_left_mono) simp_all
      then show ?thesis using T True by (simp add: lerp_at_def)
    next
      case False
      then show ?thesis using True by (simp add: lerp_at_def)
    qed
  next
    case False
    with fl have lt: "\<lfloor>h\<rfloor> < \<lfloor>h'\<rfloor>" by simp
    have "0 \<le> \<lfloor>h\<rfloor>" using h0 by simp
    with lt have j: "nat \<lfloor>h\<rfloor> + 1 \<le> nat \<lfloor>h'\<rfloor>" by linarith
    with b'(1) have "min (nat \<lfloor>h\<rfloor> + 1) (length s - 1) = nat \<lfloor>h\<rfloor> + 1" by simp
    with b(3) have "lerp_at s h \<le> s ! (nat \<lfloor>h\<rfloor> + 1)" by (simp add: lerp_at_def)
    also have "\<dots> \<le> s ! nat \<lfloor>h'\<rfloor>"
      using srt j b'(1) ne by (intro sorted_nth_mono) (simp_all add: Suc_le_eq less_Suc_eq_le[symmetric] Suc_pred)
    also have "\<dots> \<le> lerp_at s h'" using b'(2) by (simp add: lerp_at_def)
    finally show ?thesis .
  qed
qed

lemma quantile_mono:
  assumes "0 \<le> p" "p \<le> p'" "p' \<le> 1" "quantile p xs = Some a" "quantile p' xs = Some b"
  shows "a \<le> b"
proof -
  define s where "s = sort (dropna xs)"
  have ne0: "dropna xs \<noteq> []" using assms(4) by (auto simp: quantile_lerp split: if_splits)
  then have ne: "s \<noteq> []" by (simp add: s_def)
  have srt: "sorted s" by (simp add: s_def)
  have len: "length s = length (dropna xs)" by (simp add: s_def)
  let ?n = "of_nat (length s - 1) :: rat"
  have n0: "0 \<le> ?n" by simp
  have 1: "0 \<le> p * ?n" using assms(1) n0 by simp
  have 2: "p * ?n \<le> p' * ?n" using assms(2) n0 by (intro mult_right_mono)
  have 3: "p' * ?n \<le> ?n" using assms(3) n0 mult_right_mono[of p' 1 ?n] by simp
  have "a = lerp_at s (p * ?n)" "b = lerp_at s (p' * ?n)"
    using assms(4,5) ne0 by (simp_all add: quantile_lerp s_def)
  with interp_mono[OF srt 1 2 3 ne] show ?thesis by simp
qed

lemma quantile_None_iff: "quantile p xs = None \<longleftrightarrow> dropna xs = []"
  by (simp add: quantile_lerp)

lemma iqr_bounds_cases:
  "(dropna xs = [] \<and> iqr_bounds xs = (None, None)) \<or>
   (\<exists>lo hi. dropna xs \<noteq> [] \<and> iqr_bounds xs = (Some lo, Some hi) \<and> lo \<le> hi)"
proof (cases "dropna xs = []")
  case True
  then have "quantile (1/4) xs = None" "quantile (3/4) xs = None"
    by (simp_all add: quantile_None_iff)
  then show ?thesis using True by (simp add: iqr_bounds_def Let_def nan_op_def)
next
  case False
  then obtain a b where ab: "quantile (1/4) xs = Some a" "quantile (3/4) xs = Some b"
    using quantile_None_iff[of "1/4" xs] quantile_None_iff[of "3/4" xs] by auto
  have "a \<le> b" by (rule quantile_mono[OF _ _ _ ab]) simp_all
  then have "0 \<le> 3/2 * (b - a)" by simp
  with \<open>a \<le> b\<close> have "a - 3/2 * (b - a) \<le> b + 3/2 * (b - a)" by linarith
  then show ?thesis using False ab by (simp add: iqr_bounds_def Let_def nan_op_def)
qed

lemma length_clip [simp]: "length (clip a b xs) = length xs"
  by (simp add: clip_def split: option.splits)

lemma clip_value_None_None: "map_option (clip_value None None) x = x"
  by (cases x) (simp_all add: clip_value_def)

lemma clip_None_None [simp]: "clip None None xs = xs"
  by (induction xs) (simp_all add: clip_def clip_value_None_None)

lemma dropna_Nil_iff: "dropna xs = [] \<longleftrightarrow> (\<forall>x\<in>set xs. x = None)"
  by (induction xs) (auto simp: dropna_def split: option.splits)

lemma clip_in_bounds:
  assumes "lo \<le> hi" "Some v \<in> set (clip (Some lo) (Some hi) xs)"
  shows "lo \<le> v \<and> v \<le> hi"
proof -
  from assms obtain x where "Some v = map_option (clip_value (Some lo) (Some hi)) x"
    by (auto simp: clip_def min_def max_def)
  then obtain w where "v = clip_value (Some lo) (Some hi) w"
    by (cases x) auto
  then show ?thesis using assms(1) by (auto simp: clip_value_def Let_def)
qed

lemma clip_keeps_values:
  "Some v \<in> set xs \<Longrightarrow> \<exists>w. Some w \<in> set (clip a b xs)"
  by (force simp: clip_def split: option.splits)

lemma median_None_iff: "median xs = None \<longleftrightarrow> dropna xs = []"
proof (cases "dropna xs = []")
  case True
  then show ?thesis by (simp add: median_def)
next
  case False
  then have "median xs \<noteq> None"
    by (cases "odd (length (dropna xs))") (simp_all add: median_def Let_def del: not_None_eq)
  with False show ?thesis by simp
qed

lemma median_in_bounds:
  assumes "\<forall>v. Some v \<in> set xs \<longrightarrow> lo \<le> v \<and> v \<le> hi" "median xs = Some m"
  shows "lo \<le> m \<and> m \<le> hi"
proof -
  define s where "s = sort (dropna xs)"
  have ne: "s \<noteq> []" using assms(2) by (auto simp: median_def Let_def s_def split: if_splits)
  have mem: "lo \<le> v \<and> v \<le> hi" if "v \<in> set s" for v
    using that assms(1) by (simp add: s_def set_dropna)
  have n: "0 < length s" using ne by simp
  have i1: "s ! (length s div 2) \<in> set s" using n by (intro nth_mem) simp
  have i2: "s ! (length s div 2 - 1) \<in> set s" using n by (intro nth_mem) linarith
  from mem[OF i1] mem[OF i2] assms(2) ne show ?thesis
    by (auto simp: median_def Let_def s_def[symmetric] split: if_splits)
qed

subsection \<open>Stage 6: the median\<close>

lemma length_filter_dropna:
  "length (filter (\<lambda>c. case c of None \<Rightarrow> False | Some x \<Rightarrow> P x) col) = length (filter P (dropna col))"
  by (induction col) (auto simp: dropna_def split: option.splits)

lemma length_dropna: "length (filter (\<lambda>c. c \<noteq> None) col) = length (dropna col)"
  by (induction col) (auto simp: dropna_def split: option.splits)

lemma length_filter_sort: "length (filter P (sort xs)) = length (filter P xs)"
  by (simp add: filter_sort)

lemma length_filter_mono:
  "(\<And>x. x \<in> set xs \<Longrightarrow> P x \<Longrightarrow> Q x) \<Longrightarrow> length (filter P xs) \<le> length (filter Q xs)"
  by (induction xs) auto

lemma sorted_count_le:
  fixes s :: "rat list"
  assumes "sorted s" "k < length s"
  shows "k + 1 \<le> length (filter (\<lambda>x. x \<le> s ! k) s)"
proof -
  have "\<forall>x\<in>set (take (k + 1) s). x \<le> s ! k"
  proof
    fix x assume "x \<in> set (take (k + 1) s)"
    then obtain i where i: "i < k + 1" "i < length s" "x = s ! i"
      by (auto simp: in_set_conv_nth)
    then show "x \<le> s ! k" using assms by (simp add: sorted_nth_mono)
  qed
  then have "filter (\<lambda>x. x \<le> s ! k) (take (k + 1) s) = take (k + 1) s"
    by (simp add: filter_id_conv)
  moreover have "filter (\<lambda>x. x \<le> s ! k) s =
      filter (\<lambda>x. x \<le> s ! k) (take (k + 1) s) @ filter (\<lambda>x. x \<le> s ! k) (drop (k + 1) s)"
    by (metis append_take_drop_id filter_append)
  ultimately have "length (filter (\<lambda>x. x \<le> s ! k) s) \<ge> length (take (k + 1) s)"
    by simp
  then show ?thesis using assms(2) by simp
qed

lemma sorted_count_ge:
  fixes s :: "rat list"
  assumes "sorted s" "k < length s"
  shows "length s - k \<le> length (filter (\<lambda>x. s ! k \<le> x) s)"
proof -
  have "\<forall>x\<in>set (drop k s). s ! k \<le> x"
  proof
    fix x assume "x \<in> set (drop k s)"
    then obtain i where i: "i < length s - k" "x = s ! (k + i)"
      by (auto simp: in_set_conv_nth)
    then show "s ! k \<le> x" using assms by (simp add: sorted_nth_mono)
  qed
  then have "filter (\<lambda>x. s ! k \<le> x) (drop k s) = drop k s"
    by (simp add: filter_id_conv)
  moreover have "filter (\<lambda>x. s ! k \<le> x) s =
      filter (\<lambda>x. s ! k \<le> x) (take k s) @ filter (\<lambda>x. s ! k \<le> x) (drop k s)"
    by (metis append_take_drop_id filter_append)
  ultimately have "length (filter (\<lambda>x. s ! k \<le> x) s) \<ge> length (drop k s)"
    by simp
  then show ?thesis by simp
qed

lemma median_middle_value:
  assumes "median col = Some m"
  shows "middle_value col m"
proof -
  define s where "s = sort (dropna col)"
  define n where "n = length s"
  define h where "h = n div 2"
  have ne: "dropna col \<noteq> []" using assms median_None_iff[of col] by auto
  have srt: "sorted s" by (simp add: s_def)
  have n0: "0 < n" using ne by (simp add: n_def s_def)
  have hn: "h < n" using n0 by (simp add: h_def)
  have cnt: "length (filter (\<lambda>c. c \<noteq> None) col) = n"
    unfolding length_dropna by (simp add: n_def s_def)
  have le_cnt: "length (filter (\<lambda>c. case c of None \<Rightarrow> False | Some x \<Rightarrow> x \<le> m) col)
                  = length (filter (\<lambda>x. x \<le> m) s)"
    by (simp add: length_filter_dropna s_def length_filter_sort)
  have ge_cnt: "length (filter (\<lambda>c. case c of None \<Rightarrow> False | Some x \<Rightarrow> m \<le> x) col)
                  = length (filter (\<lambda>x. m \<le> x) s)"
    by (simp add: length_filter_dropna s_def length_filter_sort)
  have mval: "m = (if odd n then s ! h else (s ! (h - 1) + s ! h) / 2)"
    using assms ne by (auto simp: median_def Let_def s_def n_def h_def split: if_splits)
  show ?thesis
  proof (cases "odd n")
    case True
    then have m: "m = s ! h" by (simp add: mval)
    have a: "h + 1 \<le> length (filter (\<lambda>x. x \<le> m) s)"
      unfolding m using sorted_count_le[OF srt] hn by (simp add: n_def)
    have b: "n - h \<le> length (filter (\<lambda>x. m \<le> x) s)"
      unfolding m using sorted_count_ge[OF srt, of h] hn by (simp add: n_def)
    have c: "n \<le> 2 * (h + 1)" "n \<le> 2 * (n - h)" unfolding h_def by presburger+
    have "n \<le> 2 * length (filter (\<lambda>x. x \<le> m) s)"
      using a c(1) by (meson le_trans mult_le_mono2)
    moreover have "n \<le> 2 * length (filter (\<lambda>x. m \<le> x) s)"
      using b c(2) by (meson le_trans mult_le_mono2)
    ultimately show ?thesis
      unfolding middle_value_def cnt le_cnt ge_cnt by (rule conjI)
  next
    case False
    then have ev: "even n" by simp
    then have h1: "1 \<le> h" using n0 unfolding h_def by (elim evenE) simp
    have m: "m = (s ! (h - 1) + s ! h) / 2" using False by (simp add: mval)
    have ord: "s ! (h - 1) \<le> s ! h" using srt hn by (intro sorted_nth_mono) (simp_all add: n_def)
    have lo: "s ! (h - 1) \<le> m" and hi: "m \<le> s ! h" using ord unfolding m by simp_all
    have "(h - 1) + 1 \<le> length (filter (\<lambda>x. x \<le> s ! (h - 1)) s)"
      using sorted_count_le[OF srt, of "h - 1"] hn by (simp add: n_def)
    also have "\<dots> \<le> length (filter (\<lambda>x. x \<le> m) s)"
      using lo by (intro length_filter_mono) simp
    finally have a: "h \<le> length (filter (\<lambda>x. x \<le> m) s)" using h1 by simp
    have "n - h \<le> length (filter (\<lambda>x. s ! h \<le> x) s)"
      using sorted_count_ge[OF srt, of h] hn by (simp add: n_def)
    also have "\<dots> \<le> length (filter (\<lambda>x. m \<le> x) s)"
      using hi by (intro length_filter_mono) simp
    finally have b: "n - h \<le> length (filter (\<lambda>x. m \<le> x) s)" .
    have nh: "n = 2 * h" using ev unfolding h_def by (elim evenE) simp
    then have "n - h = h" by simp
    with b have b': "h \<le> length (filter (\<lambda>x. m \<le> x) s)" by simp
    have "n \<le> 2 * length (filter (\<lambda>x. x \<le> m) s)"
      unfolding nh using a by (rule mult_le_mono2)
    moreover have "n \<le> 2 * length (filter (\<lambda>x. m \<le> x) s)"
      unfolding nh using b' by (rule mult_le_mono2)
    ultimately show ?thesis
      unfolding middle_value_def cnt le_cnt ge_cnt by (rule conjI)
  qed
qed

lemma sorted_count_less:
  fixes s :: "rat list"
  assumes "sorted s" "k < length s"
  shows "length (filter (\<lambda>x. x < s ! k) s) \<le> k"
proof -
  have "\<forall>x\<in>set (drop k s). \<not> x < s ! k"
  proof
    fix x assume "x \<in> set (drop k s)"
    then obtain i where i: "i < length s - k" "x = s ! (k + i)"
      by (auto simp: in_set_conv_nth)
    then have "s ! k \<le> x" using assms by (simp add: sorted_nth_mono)
    then show "\<not> x < s ! k" by simp
  qed
  then have "filter (\<lambda>x. x < s ! k) (drop k s) = []"
    by (simp add: filter_empty_conv)
  moreover have "filter (\<lambda>x. x < s ! k) s =
      filter (\<lambda>x. x < s ! k) (take k s) @ filter (\<lambda>x. x < s ! k) (drop k s)"
    by (metis append_take_drop_id filter_append)
  ultimately have "length (filter (\<lambda>x. x < s ! k) s) = length (filter (\<lambda>x. x < s ! k) (take k s))"
    by simp
  also have "\<dots> \<le> length (take k s)" by (rule length_filter_le)
  finally show ?thesis by simp
qed

lemma sorted_count_greater:
  fixes s :: "rat list"
  assumes "sorted s" "k < length s"
  shows "length (filter (\<lambda>x. s ! k < x) s) \<le> length s - (k + 1)"
proof -
  have "\<forall>x\<in>set (take (k + 1) s). \<not> s ! k < x"
  proof
    fix x assume "x \<in> set (take (k + 1) s)"
    then obtain i where i: "i < k + 1" "i < length s" "x = s ! i"
      by (auto simp: in_set_conv_nth)
    then have "x \<le> s ! k" using assms by (simp add: sorted_nth_mono)
    then show "\<not> s ! k < x" by simp
  qed
  then have "filter (\<lambda>x. s ! k < x) (take (k + 1) s) = []"
    by (simp add: filter_empty_conv)
  moreover have "filter (\<lambda>x. s ! k < x) s =
      filter (\<lambda>x. s ! k < x) (take (k + 1) s) @ filter (\<lambda>x. s ! k < x) (drop (k + 1) s)"
    by (metis append_take_drop_id filter_append)
  ultimately have "length (filter (\<lambda>x. s ! k < x) s)
                     = length (filter (\<lambda>x. s ! k < x) (drop (k + 1) s))"
    by simp
  also have "\<dots> \<le> length (drop (k + 1) s)" by (rule length_filter_le)
  finally show ?thesis by simp
qed

lemma middle_value_interval:
  assumes ne: "dropna col \<noteq> []"
  defines "s \<equiv> sort (dropna col)"
  shows "middle_value col u \<longleftrightarrow> s ! ((length s - 1) div 2) \<le> u \<and> u \<le> s ! (length s div 2)"
proof -
  define n where "n = length s"
  define l where "l = (n - 1) div 2"
  define h where "h = n div 2"
  have srt: "sorted s" by (simp add: s_def)
  have n0: "0 < n" using ne by (simp add: n_def s_def)
  have hn: "h < n" and ln: "l < n" using n0 by (simp_all add: h_def l_def)
  have cnt: "length (filter (\<lambda>c. c \<noteq> None) col) = n"
    unfolding length_dropna by (simp add: n_def s_def)
  have le_cnt: "length (filter (\<lambda>c. case c of None \<Rightarrow> False | Some x \<Rightarrow> x \<le> u) col)
                  = length (filter (\<lambda>x. x \<le> u) s)"
    by (simp add: length_filter_dropna s_def length_filter_sort)
  have ge_cnt: "length (filter (\<lambda>c. case c of None \<Rightarrow> False | Some x \<Rightarrow> u \<le> x) col)
                  = length (filter (\<lambda>x. u \<le> x) s)"
    by (simp add: length_filter_dropna s_def length_filter_sort)
  have mv: "middle_value col u \<longleftrightarrow>
              n \<le> 2 * length (filter (\<lambda>x. x \<le> u) s) \<and> n \<le> 2 * length (filter (\<lambda>x. u \<le> x) s)"
    unfolding middle_value_def cnt le_cnt ge_cnt ..
  have c: "n \<le> 2 * (l + 1)" "n \<le> 2 * (n - h)" "2 * l < n" "2 * (n - (h + 1)) < n"
    using n0 unfolding h_def l_def by presburger+
  have "s ! l \<le> u \<and> u \<le> s ! h" if m: "middle_value col u"
  proof (intro conjI)
    show "s ! l \<le> u"
    proof (rule ccontr)
      assume "\<not> s ! l \<le> u"
      then have lt: "u < s ! l" by simp
      have "length (filter (\<lambda>x. x \<le> u) s) \<le> length (filter (\<lambda>x. x < s ! l) s)"
        using lt by (intro length_filter_mono) simp
      also have "\<dots> \<le> l" using sorted_count_less[OF srt, of l] ln by (simp add: n_def)
      finally have "2 * length (filter (\<lambda>x. x \<le> u) s) \<le> 2 * l" by simp
      with c(3) m[unfolded mv] show False by linarith
    qed
    show "u \<le> s ! h"
    proof (rule ccontr)
      assume "\<not> u \<le> s ! h"
      then have lt: "s ! h < u" by simp
      have "length (filter (\<lambda>x. u \<le> x) s) \<le> length (filter (\<lambda>x. s ! h < x) s)"
        using lt by (intro length_filter_mono) simp
      also have "\<dots> \<le> n - (h + 1)" using sorted_count_greater[OF srt, of h] hn by (simp add: n_def)
      finally have "2 * length (filter (\<lambda>x. u \<le> x) s) \<le> 2 * (n - (h + 1))" by simp
      with c(4) m[unfolded mv] show False by linarith
    qed
  qed
  moreover have "middle_value col u" if b: "s ! l \<le> u \<and> u \<le> s ! h"
  proof -
    have "l + 1 \<le> length (filter (\<lambda>x. x \<le> s ! l) s)"
      using sorted_count_le[OF srt, of l] ln by (simp add: n_def)
    also have "\<dots> \<le> length (filter (\<lambda>x. x \<le> u) s)"
      using b by (intro length_filter_mono) simp
    finally have "2 * (l + 1) \<le> 2 * length (filter (\<lambda>x. x \<le> u) s)" by simp
    with c(1) have 1: "n \<le> 2 * length (filter (\<lambda>x. x \<le> u) s)" by linarith
    have "n - h \<le> length (filter (\<lambda>x. s ! h \<le> x) s)"
      using sorted_count_ge[OF srt, of h] hn by (simp add: n_def)
    also have "\<dots> \<le> length (filter (\<lambda>x. u \<le> x) s)"
      using b by (intro length_filter_mono) simp
    finally have "2 * (n - h) \<le> 2 * length (filter (\<lambda>x. u \<le> x) s)" by simp
    with c(2) have 2: "n \<le> 2 * length (filter (\<lambda>x. u \<le> x) s)" by linarith
    show ?thesis unfolding mv using 1 2 by (rule conjI)
  qed
  ultimately show ?thesis unfolding l_def h_def n_def by blast
qed

lemma median_midpoint:
  assumes "median col = Some m"
  shows "\<exists>a b. a \<le> b \<and> m = (a + b) / 2 \<and> (\<forall>u. middle_value col u \<longleftrightarrow> a \<le> u \<and> u \<le> b)"
proof -
  define s where "s = sort (dropna col)"
  define n where "n = length s"
  have ne: "dropna col \<noteq> []" using assms median_None_iff[of col] by auto
  have srt: "sorted s" by (simp add: s_def)
  have n0: "0 < n" using ne by (simp add: n_def s_def)
  have iv: "\<forall>u. middle_value col u \<longleftrightarrow> s ! ((n - 1) div 2) \<le> u \<and> u \<le> s ! (n div 2)"
    using middle_value_interval[OF ne] unfolding s_def n_def by blast
  have ord: "s ! ((n - 1) div 2) \<le> s ! (n div 2)"
    using srt n0 by (intro sorted_nth_mono) (simp_all add: n_def[symmetric])
  have mval: "m = (if odd n then s ! (n div 2) else (s ! (n div 2 - 1) + s ! (n div 2)) / 2)"
    using assms ne by (auto simp: median_def Let_def s_def n_def split: if_splits)
  have idx: "(n - 1) div 2 = (if odd n then n div 2 else n div 2 - 1)"
    using n0 by presburger
  have "m = (s ! ((n - 1) div 2) + s ! (n div 2)) / 2"
    unfolding mval idx by simp
  with ord iv show ?thesis by blast
qed

lemma nearest_integer_round_half_even: "nearest_integer v (round_half_even v)"
proof -
  have "\<bar>of_int (round_half_even v) - v\<bar> \<le> 1 / 2"
    using round_half_even_bounds[of v] by linarith
  then show ?thesis
    unfolding nearest_integer_def using round_half_even_tie[of v] by blast
qed

lemma FinalIntConversion_succeeds_iff:
  "(\<exists>Y. FinalIntConversion Z = Inr Y) \<longleftrightarrow> (\<forall>(l, col)\<in>set Z. None \<notin> set col)"
  by (auto simp: FinalIntConversion_def list_ex_iff)

lemma fillna_median_complete:
  "None \<notin> set (fillna (median col) col) \<longleftrightarrow> col = [] \<or> (\<exists>v. Some v \<in> set col)"
proof (cases "dropna col = []")
  case True
  then have m: "median col = None" by (simp add: median_None_iff)
  have all: "\<forall>x\<in>set col. x = None" using True by (simp add: dropna_Nil_iff)
  have "None \<notin> set col \<longleftrightarrow> col = []"
    using all by (cases col) auto
  moreover have "\<not> (\<exists>v. Some v \<in> set col)" using all by auto
  ultimately show ?thesis by (simp add: m fillna_def)
next
  case False
  then obtain m where m: "median col = Some m" using median_None_iff[of col] by auto
  from False obtain v where "v \<in> set (dropna col)" by (cases "dropna col") auto
  then have "Some v \<in> set col" by (simp add: set_dropna)
  moreover have "None \<notin> set (fillna (Some m) col)"
    by (auto simp: fillna_def split: option.splits)
  ultimately show ?thesis unfolding m by blast
qed

lemma set_FillNaWithMedian:
  "set (FillNaWithMedian X) = (\<lambda>(l, col). (l, fillna (median col) col)) ` set X"
  by (simp add: FillNaWithMedian_def)

lemma pipeline_after_stage_5:
  "stages_1_to_5 F X = Inr X5 \<Longrightarrow>
     create_preprocessing_pipeline F X = FinalIntConversion (FillNaWithMedian X5)"
  by (simp add: create_preprocessing_pipeline_def bind_err_Inr)

lemma int64_wraps:
  "- (2 ^ 63) \<le> int64 k" "int64 k < 2 ^ 63" "\<exists>j. int64 k = k + j * 2 ^ 64"
proof -
  have "0 \<le> (k + 2 ^ 63) mod (2 ^ 64 :: int)" by simp
  then show "- (2 ^ 63) \<le> int64 k" by (simp add: int64_def)
  have "(k + 2 ^ 63) mod (2 ^ 64 :: int) < 2 ^ 64" by simp
  then show "int64 k < 2 ^ 63" by (simp add: int64_def)
  have "(k + 2 ^ 63) mod (2 ^ 64 :: int) = k + 2 ^ 63 - (k + 2 ^ 63) div 2 ^ 64 * 2 ^ 64"
    by (simp add: minus_div_mult_eq_mod)
  then have "int64 k = k + (- ((k + 2 ^ 63) div 2 ^ 64)) * 2 ^ 64"
    by (simp add: int64_def)
  then show "\<exists>j. int64 k = k + j * 2 ^ 64" ..
qed

lemma int64_round_half_even:
  assumes "- (2 ^ 47) \<le> v" "v \<le> 2 ^ 47"
  shows "int64 (round_half_even v) = round_half_even v"
proof -
  have "round_half_even (of_int (- (2 ^ 47))) \<le> round_half_even v"
    using assms(1) by (intro round_half_even_mono) simp
  then have 1: "- (2 ^ 47) \<le> round_half_even v"
    unfolding round_half_even_of_int .
  have "round_half_even v \<le> round_half_even (of_int (2 ^ 47))"
    using assms(2) by (intro round_half_even_mono) simp
  then have 2: "round_half_even v \<le> 2 ^ 47"
    unfolding round_half_even_of_int .
  show ?thesis using 1 2 by (intro int64_id) simp_all
qed

lemma pipeline_succeeds_iff:
  assumes s5: "stages_1_to_5 F X = Inr X5"
  shows "(\<exists>Y'. create_preprocessing_pipeline F X = Inr Y') \<longleftrightarrow>
         (\<forall>(l, col)\<in>set X5. col = [] \<or> (\<exists>v. Some v \<in> set col))"
proof -
  have "(\<exists>Y'. create_preprocessing_pipeline F X = Inr Y') \<longleftrightarrow>
          (\<forall>(l, col)\<in>set (FillNaWithMedian X5). None \<notin> set col)"
    unfolding pipeline_after_stage_5[OF s5] by (rule FinalIntConversion_succeeds_iff)
  also have "\<dots> \<longleftrightarrow> (\<forall>(l, col)\<in>set X5. None \<notin> set (fillna (median col) col))"
    unfolding set_FillNaWithMedian by auto
  also have "\<dots> \<longleftrightarrow> (\<forall>(l, col)\<in>set X5. col = [] \<or> (\<exists>v. Some v \<in> set col))"
    unfolding fillna_median_complete ..
  finally show ?thesis .
qed

text \<open>
  Claim C6. In every frame the pipeline produces, every cell of every column is an
  integer of the int64 range and none is missing. Missing cells do not stop the
  pipeline: once stages 1 to 5 have delivered a frame, the pipeline produces a frame
  only if every column of that frame is empty or has a value, and it does produce
  one if moreover the values of that frame are at most \<open>2^47\<close> in absolute value.
  The frame produced has the columns of the frame that leaves stage 5, and each of
  its cells comes from the cell of that frame, a missing cell having been replaced
  by the median of its column in that frame, which is the midpoint of the middle
  values of the column. The cell is the value \<open>v\<close> so obtained rounded to the nearest
  integer, the even one at a tie, as long as the values of the column are at most
  \<open>2^47\<close> in absolute value. (Beyond that magnitude the cast to int64 can wrap
  around.)
\<close>

theorem pipeline_output_complete_and_integer:
  "(create_preprocessing_pipeline F X = Inr Y \<longrightarrow>
      (\<forall>(l, col)\<in>set Y. \<forall>c\<in>set col.
          \<exists>k::int. c = Some (of_int k) \<and> - (2 ^ 63) \<le> k \<and> k < 2 ^ 63)) \<and>
   (stages_1_to_5 F X = Inr X5 \<longrightarrow>
      ((\<exists>Y'. create_preprocessing_pipeline F X = Inr Y') \<longrightarrow>
         (\<forall>(l, col)\<in>set X5. col = [] \<or> (\<exists>v. Some v \<in> set col))) \<and>
      ((\<forall>(l, col)\<in>set X5. (col = [] \<or> (\<exists>v. Some v \<in> set col)) \<and>
                             (\<forall>x. Some x \<in> set col \<longrightarrow> \<bar>x\<bar> \<le> 2 ^ 47)) \<longrightarrow>
         (\<exists>Y'. create_preprocessing_pipeline F X = Inr Y')) \<and>
      (create_preprocessing_pipeline F X = Inr Y \<longrightarrow>
         columns Y = columns X5 \<and>
         (\<forall>l col. map_of X5 l = Some col \<longrightarrow>
            (\<exists>col'. map_of Y l = Some col' \<and> length col' = length col \<and>
               (\<forall>i<length col. \<exists>v r k.
                   col' ! i = Some (of_int k) \<and> - (2 ^ 63) \<le> k \<and> k < 2 ^ 63 \<and>
                   r = round_half_even v \<and> nearest_integer v r \<and>
                   ((\<forall>x. Some x \<in> set col \<longrightarrow> \<bar>x\<bar> \<le> 2 ^ 47) \<longrightarrow> k = r) \<and>
                   (col ! i = Some v \<or>
                    col ! i = None \<and> median col = Some v \<and>
                    (\<exists>a b. a \<le> b \<and> v = (a + b) / 2 \<and>
                       (\<forall>u. middle_value col u \<longleftrightarrow> a \<le> u \<and> u \<le> b))))))))"
proof (intro conjI impI)
  assume run: "create_preprocessing_pipeline F X = Inr Y"
  then obtain X5 where fin: "FinalIntConversion (FillNaWithMedian X5) = Inr Y"
    by (auto simp: create_preprocessing_pipeline_def bind_err_eq_Inr)
  let ?r = "map_option (\<lambda>v. of_int (int64 (round_half_even v)) :: rat)"
  note Y = FinalIntConversion_Inr(1)[OF fin]
  note nonone = FinalIntConversion_Inr(2)[OF fin]
  show "\<forall>(l, col)\<in>set Y. \<forall>c\<in>set col.
          \<exists>k::int. c = Some (of_int k) \<and> - (2 ^ 63) \<le> k \<and> k < 2 ^ 63"
  proof (clarify)
    fix l col c assume m: "(l, col) \<in> set Y" and c: "c \<in> set col"
    from m obtain col0 where col0: "(l, col0) \<in> set (FillNaWithMedian X5)" "col = map ?r col0"
      unfolding Y by auto
    from c col0(2) obtain c0 where c0: "c0 \<in> set col0" "c = ?r c0" by auto
    from nonone[OF col0(1)] c0(1) have "c0 \<noteq> None" by metis
    then obtain v where "c0 = Some v" by blast
    with c0(2) have "c = Some (of_int (int64 (round_half_even v)))" by simp
    then show "\<exists>k::int. c = Some (of_int k) \<and> - (2 ^ 63) \<le> k \<and> k < 2 ^ 63"
      using int64_wraps(1,2)[of "round_half_even v"] by blast
  qed
next
  assume s5: "stages_1_to_5 F X = Inr X5"
    and ok: "\<exists>Y'. create_preprocessing_pipeline F X = Inr Y'"
  show "\<forall>(l, col)\<in>set X5. col = [] \<or> (\<exists>v. Some v \<in> set col)"
    using pipeline_succeeds_iff[OF s5] ok by (rule iffD1)
next
  assume s5: "stages_1_to_5 F X = Inr X5"
    and ok: "\<forall>(l, col)\<in>set X5. (col = [] \<or> (\<exists>v. Some v \<in> set col)) \<and>
                             (\<forall>x. Some x \<in> set col \<longrightarrow> \<bar>x\<bar> \<le> 2 ^ 47)"
  then have "\<forall>(l, col)\<in>set X5. col = [] \<or> (\<exists>v. Some v \<in> set col)"
    by blast
  with pipeline_succeeds_iff[OF s5] show "\<exists>Y'. create_preprocessing_pipeline F X = Inr Y'"
    by (rule iffD2)
next
  assume s5: "stages_1_to_5 F X = Inr X5" and run: "create_preprocessing_pipeline F X = Inr Y"
  have fin: "FinalIntConversion (FillNaWithMedian X5) = Inr Y"
    using run unfolding pipeline_after_stage_5[OF s5] .
  note Y = FinalIntConversion_Inr(1)[OF fin]
  show "columns Y = columns X5"
    unfolding Y by (simp add: columns_map_cols columns_FillNaWithMedian)
next
  assume s5: "stages_1_to_5 F X = Inr X5" and run: "create_preprocessing_pipeline F X = Inr Y"
  have fin: "FinalIntConversion (FillNaWithMedian X5) = Inr Y"
    using run unfolding pipeline_after_stage_5[OF s5] .
  let ?r = "map_option (\<lambda>v. of_int (int64 (round_half_even v)) :: rat)"
  note Y = FinalIntConversion_Inr(1)[OF fin]
  note nonone = FinalIntConversion_Inr(2)[OF fin]
  show "\<forall>l col. map_of X5 l = Some col \<longrightarrow>
            (\<exists>col'. map_of Y l = Some col' \<and> length col' = length col \<and>
               (\<forall>i<length col. \<exists>v r k.
                   col' ! i = Some (of_int k) \<and> - (2 ^ 63) \<le> k \<and> k < 2 ^ 63 \<and>
                   r = round_half_even v \<and> nearest_integer v r \<and>
                   ((\<forall>x. Some x \<in> set col \<longrightarrow> \<bar>x\<bar> \<le> 2 ^ 47) \<longrightarrow> k = r) \<and>
                   (col ! i = Some v \<or>
                    col ! i = None \<and> median col = Some v \<and>
                    (\<exists>a b. a \<le> b \<and> v = (a + b) / 2 \<and>
                       (\<forall>u. middle_value col u \<longleftrightarrow> a \<le> u \<and> u \<le> b)))))"
  proof (intro allI impI)
    fix l col assume l: "map_of X5 l = Some col"
    let ?f = "fillna (median col) col"
    have mf: "map_of (FillNaWithMedian X5) l = Some ?f"
      by (simp add: map_of_FillNaWithMedian l)
    then have mem: "(l, ?f) \<in> set (FillNaWithMedian X5)" by (rule map_of_SomeD)
    have mY: "map_of Y l = Some (map ?r ?f)"
      unfolding Y by (simp add: map_of_map_cols mf)
    have "\<exists>v r k.
                   map ?r ?f ! i = Some (of_int k) \<and> - (2 ^ 63) \<le> k \<and> k < 2 ^ 63 \<and>
                   r = round_half_even v \<and> nearest_integer v r \<and>
                   ((\<forall>x. Some x \<in> set col \<longrightarrow> \<bar>x\<bar> \<le> 2 ^ 47) \<longrightarrow> k = r) \<and>
                   (col ! i = Some v \<or>
                    col ! i = None \<and> median col = Some v \<and>
                    (\<exists>a b. a \<le> b \<and> v = (a + b) / 2 \<and>
                       (\<forall>u. middle_value col u \<longleftrightarrow> a \<le> u \<and> u \<le> b)))"
      if i: "i < length col" for i
    proof -
      have "?f ! i \<in> set ?f" using i by simp
      with nonone[OF mem] have "?f ! i \<noteq> None" by metis
      then obtain v where v: "?f ! i = Some v" by blast
      define r where "r = round_half_even v"
      define k where "k = int64 r"
      from v have src: "col ! i = Some v \<or> col ! i = None \<and> median col = Some v"
        using fillna_nth[OF i, of "median col"] by (auto split: option.splits)
      then have src': "col ! i = Some v \<or>
                       col ! i = None \<and> median col = Some v \<and>
                       (\<exists>a b. a \<le> b \<and> v = (a + b) / 2 \<and>
                          (\<forall>u. middle_value col u \<longleftrightarrow> a \<le> u \<and> u \<le> b))"
        using median_midpoint[of col v] by blast
      have cell: "map ?r ?f ! i = Some (of_int k)"
        using v i by (simp add: k_def r_def)
      have r: "r = round_half_even v" by (rule r_def)
      have near: "nearest_integer v r"
        unfolding r_def by (rule nearest_integer_round_half_even)
      have w: "- (2 ^ 63) \<le> k" "k < 2 ^ 63"
        unfolding k_def by (rule int64_wraps)+
      have rng: "(\<forall>x. Some x \<in> set col \<longrightarrow> \<bar>x\<bar> \<le> 2 ^ 47) \<longrightarrow> k = r"
      proof
        assume small: "\<forall>x. Some x \<in> set col \<longrightarrow> \<bar>x\<bar> \<le> 2 ^ 47"
        then have b: "\<forall>x. Some x \<in> set col \<longrightarrow> - (2 ^ 47) \<le> x \<and> x \<le> 2 ^ 47"
          by (auto simp: abs_le_iff)
        have "- (2 ^ 47) \<le> v \<and> v \<le> 2 ^ 47"
        proof (rule disjE[OF src])
          assume "col ! i = Some v"
          then have "Some v \<in> set col" using i by (metis nth_mem)
          with b show ?thesis by blast
        next
          assume "col ! i = None \<and> median col = Some v"
          then show ?thesis using median_in_bounds[OF b] by blast
        qed
        then show "k = r"
          unfolding k_def r_def by (intro int64_round_half_even) simp_all
      qed
      from cell w r near rng src' show ?thesis by blast
    qed
    then show "\<exists>col'. map_of Y l = Some col' \<and> length col' = length col \<and>
               (\<forall>i<length col. \<exists>v r k.
                   col' ! i = Some (of_int k) \<and> - (2 ^ 63) \<le> k \<and> k < 2 ^ 63 \<and>
                   r = round_half_even v \<and> nearest_integer v r \<and>
                   ((\<forall>x. Some x \<in> set col \<longrightarrow> \<bar>x\<bar> \<le> 2 ^ 47) \<longrightarrow> k = r) \<and>
                   (col ! i = Some v \<or>
                    col ! i = None \<and> median col = Some v \<and>
                    (\<exists>a b. a \<le> b \<and> v = (a + b) / 2 \<and>
                       (\<forall>u. middle_value col u \<longleftrightarrow> a \<le> u \<and> u \<le> b))))"
      using mY by simp
  qed
qed

theorem pipeline_output_complete_and_integer_witness:
  "create_preprocessing_pipeline float_table ex_raw = Inr ex_clean \<and>
   stages_1_to_5 float_table ex_raw = Inr ex_stage5 \<and>
   map_of ex_stage5 ''Service time'' = Some [Some 13, None, Some 13, Some 18] \<and>
   median [Some 13, None, Some 13, Some 18] = Some 13 \<and>
   (\<exists>col'. map_of ex_clean ''Service time'' = Some col' \<and> length col' = 4 \<and>
           col' ! 1 = Some 13 \<and> col' ! 3 = Some 18)"
proof -
  let ?col = "[Some 13, None, Some 13, Some (18::rat)]"
  have m5: "map_of ex_stage5 ''Service time'' = Some ?col"
    by (simp add: ex_stage5_def)
  have small: "\<forall>x. Some x \<in> set ?col \<longrightarrow> \<bar>x\<bar> \<le> 2 ^ 47"
    by auto
  note inst = pipeline_output_complete_and_integer[of float_table ex_raw ex_clean ex_stage5]
  note each = inst[THEN conjunct2, rule_format, OF ex_stages_1_to_5, THEN conjunct2,
      THEN conjunct2, rule_format, OF ex_pipeline, THEN conjunct2, rule_format, OF m5]
  then obtain col' where
    c1: "map_of ex_clean ''Service time'' = Some col'" and c2: "length col' = length ?col"
    and c3: "\<forall>i<length ?col. \<exists>v r k.
                   col' ! i = Some (of_int k) \<and> - (2 ^ 63) \<le> k \<and> k < 2 ^ 63 \<and>
                   r = round_half_even v \<and> nearest_integer v r \<and>
                   ((\<forall>x. Some x \<in> set ?col \<longrightarrow> \<bar>x\<bar> \<le> 2 ^ 47) \<longrightarrow> k = r) \<and>
                   (?col ! i = Some v \<or>
                    ?col ! i = None \<and> median ?col = Some v \<and>
                    (\<exists>a b. a \<le> b \<and> v = (a + b) / 2 \<and>
                       (\<forall>u. middle_value ?col u \<longleftrightarrow> a \<le> u \<and> u \<le> b)))"
    by (elim exE conjE) (rule that)
  have r13: "round_half_even 13 = 13" and r18: "round_half_even 18 = 18"
    using round_half_even_of_int[of 13] round_half_even_of_int[of 18] by simp_all
  from c3[rule_format, of 1] obtain v r k where
    a: "col' ! 1 = Some (of_int k)" "r = round_half_even v"
       "(\<forall>x. Some x \<in> set ?col \<longrightarrow> \<bar>x\<bar> \<le> 2 ^ 47) \<longrightarrow> k = r"
       "median ?col = Some v"
    by auto
  from a(4) have "v = 13" by (simp add: median_ex(6))
  moreover from a(3) small have "k = r" by (rule mp)
  ultimately have i1: "col' ! 1 = Some 13" using a(1,2) by (simp add: r13)
  from c3[rule_format, of 3] obtain v r k where
    b: "col' ! 3 = Some (of_int k)" "r = round_half_even v"
       "(\<forall>x. Some x \<in> set ?col \<longrightarrow> \<bar>x\<bar> \<le> 2 ^ 47) \<longrightarrow> k = r"
       "v = 18"
    by auto
  from b(3) small have "k = r" by (rule mp)
  with b(1,2,4) have i3: "col' ! 3 = Some 18" by (simp add: r18)
  have "\<exists>col'. map_of ex_clean ''Service time'' = Some col' \<and> length col' = 4 \<and>
           col' ! 1 = Some 13 \<and> col' ! 3 = Some 18"
    using c1 c2 i1 i3 by simp
  then show ?thesis
    using ex_pipeline ex_stages_1_to_5 m5 median_ex(6) by (intro conjI) assumption+
qed

subsection \<open>The outlier columns after the pipeline\<close>

lemma fillna_Some_cells:
  assumes "\<forall>v. Some v \<in> set w \<longrightarrow> P v" "P m"
  shows "\<forall>c\<in>set (fillna (Some m) w). \<exists>v. c = Some v \<and> P v"
  using assms by (auto simp: fillna_def split: option.splits)


lemma quantile_in_bounds:
  assumes rng: "\<forall>v. Some v \<in> set xs \<longrightarrow> a \<le> v \<and> v \<le> b"
    and p: "0 \<le> p" "p \<le> 1" and q: "quantile p xs = Some q"
  shows "a \<le> q \<and> q \<le> b"
proof -
  define s where "s = sort (dropna xs)"
  have ne0: "dropna xs \<noteq> []" using q by (auto simp: quantile_lerp split: if_splits)
  then have ne: "s \<noteq> []" by (simp add: s_def)
  have srt: "sorted s" by (simp add: s_def)
  have mem: "a \<le> v \<and> v \<le> b" if "v \<in> set s" for v
    using that rng by (simp add: s_def set_dropna)
  let ?n = "of_nat (length s - 1) :: rat"
  have n0: "0 \<le> ?n" by simp
  have h0: "0 \<le> p * ?n" using p(1) n0 by simp
  have hn: "p * ?n \<le> ?n" using p(2) n0 mult_right_mono[of p 1 ?n] by simp
  have qv: "q = lerp_at s (p * ?n)" using q ne0 by (simp add: quantile_lerp s_def)
  note b = interp_bounds[OF srt h0 hn ne, folded lerp_at_def]
  have len: "0 < length s" using ne by simp
  have "s ! nat \<lfloor>p * ?n\<rfloor> \<in> set s" using b(1) len by (intro nth_mem) linarith
  moreover have "s ! min (nat \<lfloor>p * ?n\<rfloor> + 1) (length s - 1) \<in> set s"
    using len by (intro nth_mem) linarith
  ultimately show ?thesis using b(2,3) mem unfolding qv by force
qed

lemma iqr_bounds_quantiles:
  assumes "iqr_bounds xs = (Some lo, Some hi)"
  shows "\<exists>q1 q3. quantile (1 / 4) xs = Some q1 \<and> quantile (3 / 4) xs = Some q3 \<and> q1 \<le> q3 \<and>
           lo = q1 - 3 / 2 * (q3 - q1) \<and> hi = q3 + 3 / 2 * (q3 - q1)"
proof -
  obtain q1 where q1: "quantile (1/4) xs = Some q1"
    using assms by (cases "quantile (1/4) xs") (auto simp: iqr_bounds_def Let_def nan_op_def)
  obtain q3 where q3: "quantile (3/4) xs = Some q3"
    using assms by (cases "quantile (3/4) xs") (auto simp: iqr_bounds_def Let_def nan_op_def)
  from assms have "(Some (q1 - 3/2 * (q3 - q1)), Some (q3 + 3/2 * (q3 - q1))) = (Some lo, Some hi)"
    by (simp only: iqr_bounds_def Let_def nan_op_def q1 q3 option.case)
  then have lo: "lo = q1 - 3/2 * (q3 - q1)" and hi: "hi = q3 + 3/2 * (q3 - q1)"
    by (simp_all only: prod.inject option.inject)
  have le: "q1 \<le> q3" by (rule quantile_mono[OF _ _ _ q1 q3]) simp_all
  from q1 q3 le lo hi show ?thesis by blast
qed

lemma iqr_bounds_in_range:
  assumes rng: "\<forall>v. Some v \<in> set xs \<longrightarrow> a \<le> v \<and> v \<le> b"
    and bd: "iqr_bounds xs = (Some lo, Some hi)"
  shows "lo \<le> b \<and> a \<le> hi"
proof -
  obtain q1 where q1: "quantile (1/4) xs = Some q1"
    using bd by (cases "quantile (1/4) xs") (auto simp: iqr_bounds_def Let_def nan_op_def)
  obtain q3 where q3: "quantile (3/4) xs = Some q3"
    using bd by (cases "quantile (3/4) xs") (auto simp: iqr_bounds_def Let_def nan_op_def)
  note q = q1 q3
  from bd have "(Some (q1 - 3/2 * (q3 - q1)), Some (q3 + 3/2 * (q3 - q1))) = (Some lo, Some hi)"
    by (simp only: iqr_bounds_def Let_def nan_op_def q1 q3 option.case)
  then have lo: "lo = q1 - 3/2 * (q3 - q1)" and hi: "hi = q3 + 3/2 * (q3 - q1)"
    by (simp_all only: prod.inject option.inject)
  have le: "q1 \<le> q3" by (rule quantile_mono[OF _ _ _ q]) simp_all
  have "q1 \<le> b" using quantile_in_bounds[OF rng _ _ q(1)] by simp
  moreover have "a \<le> q3" using quantile_in_bounds[OF rng _ _ q(2)] by simp
  moreover have "0 \<le> 3/2 * (q3 - q1)" using le by simp
  ultimately show ?thesis unfolding lo hi by linarith
qed

lemma clip_in_range:
  assumes "lo \<le> hi" "lo \<le> b" "a \<le> hi"
    and rng: "\<forall>v. Some v \<in> set xs \<longrightarrow> a \<le> v \<and> v \<le> b"
    and v: "Some v \<in> set (clip (Some lo) (Some hi) xs)"
  shows "a \<le> v \<and> v \<le> b"
proof -
  have "clip (Some lo) (Some hi) xs = map (map_option (clip_value (Some lo) (Some hi))) xs"
    using assms(1) by (simp add: clip_def min_def max_def)
  with v have "Some v \<in> map_option (clip_value (Some lo) (Some hi)) ` set xs" by simp
  then obtain x where x: "x \<in> set xs"
    "Some v = map_option (clip_value (Some lo) (Some hi)) x"
    by (elim imageE)
  from x(2) obtain w where w: "x = Some w" "v = clip_value (Some lo) (Some hi) w"
    by (cases x) auto
  from rng x(1) w(1) have "a \<le> w \<and> w \<le> b" by blast
  then show ?thesis using assms(1-3) unfolding w(2) by (auto simp: clip_value_def Let_def)
qed

text \<open>
  Claim C2, amended. For every frame the pipeline produces and each of the twelve
  columns of the outlier list, the processed column is empty or lies within the
  rounded bounds of the column as it enters stage 5, as long as the values of that
  column are at most \<open>2^47\<close> in absolute value when they enter stage 5: with the
  quartiles \<open>Q1\<close> and \<open>Q3\<close> of the column that stages 1 to 4 deliver and the bounds
  \<open>Q1 - 1.5 (Q3 - Q1)\<close> and \<open>Q3 + 1.5 (Q3 - Q1)\<close>, every processed value is an integer
  between the two bounds rounded to their nearest integers. (Beyond that magnitude
  the cast to int64 of stage 7 can wrap around.)
\<close>

theorem clipped_within_stage_5_input_bounds:
  assumes "create_preprocessing_pipeline F X = Inr Y" and "l \<in> set outlier_columns"
  shows "\<exists>X4 xs ys. stages_1_to_4 F X = Inr X4 \<and> map_of X4 l = Some xs \<and>
           map_of Y l = Some ys \<and> length ys = length xs \<and>
           (xs = [] \<or>
            (\<exists>q1 q3 lo hi.
               quantile (1 / 4) xs = Some q1 \<and> quantile (3 / 4) xs = Some q3 \<and> q1 \<le> q3 \<and>
               lo = q1 - 3 / 2 * (q3 - q1) \<and> hi = q3 + 3 / 2 * (q3 - q1) \<and>
               iqr_bounds xs = (Some lo, Some hi) \<and> lo \<le> hi \<and>
               nearest_integer lo (round_half_even lo) \<and>
               nearest_integer hi (round_half_even hi) \<and>
               ((\<forall>x. Some x \<in> set xs \<longrightarrow> \<bar>x\<bar> \<le> 2 ^ 47) \<longrightarrow>
                  (\<forall>y\<in>set ys. \<exists>k::int. y = Some (of_int k) \<and>
                       round_half_even lo \<le> k \<and> k \<le> round_half_even hi))))"
proof -
  from assms(1) obtain X4 X5 where X4: "stages_1_to_4 F X = Inr X4"
    and X5: "WinsorizeIQR X4 = Inr X5"
    and fin: "FinalIntConversion (FillNaWithMedian X5) = Inr Y"
    by (auto simp: create_preprocessing_pipeline_def stages_1_to_5_def bind_err_eq_Inr)
  from WinsorizeIQR_Inr(3)[OF X5 assms(2)] obtain xs where xs: "map_of X4 l = Some xs" by blast
  define w where "w = winsorized xs"
  define f where "f = fillna (median w) w"
  let ?r = "map_option (\<lambda>v. of_int (int64 (round_half_even v)) :: rat)"
  have m5: "map_of X5 l = Some w"
    using WinsorizeIQR_Inr(2)[OF X5, of l] assms(2) xs by (simp add: w_def)
  have mf: "map_of (FillNaWithMedian X5) l = Some f"
    by (simp add: map_of_FillNaWithMedian m5 f_def)
  then have "(l, f) \<in> set (FillNaWithMedian X5)" by (rule map_of_SomeD)
  from FinalIntConversion_Inr(2)[OF fin this] have nonone: "None \<notin> set f" .
  have mY: "map_of Y l = Some (map ?r f)"
    unfolding FinalIntConversion_Inr(1)[OF fin] by (simp add: map_of_map_cols mf)
  have len: "length (map ?r f) = length xs"
    by (simp add: f_def w_def winsorized_def)
  have bounded: "\<exists>q1 q3 lo hi.
               quantile (1 / 4) xs = Some q1 \<and> quantile (3 / 4) xs = Some q3 \<and> q1 \<le> q3 \<and>
               lo = q1 - 3 / 2 * (q3 - q1) \<and> hi = q3 + 3 / 2 * (q3 - q1) \<and>
               iqr_bounds xs = (Some lo, Some hi) \<and> lo \<le> hi \<and>
               nearest_integer lo (round_half_even lo) \<and>
               nearest_integer hi (round_half_even hi) \<and>
               ((\<forall>x. Some x \<in> set xs \<longrightarrow> \<bar>x\<bar> \<le> 2 ^ 47) \<longrightarrow>
                  (\<forall>y\<in>set (map ?r f). \<exists>k::int. y = Some (of_int k) \<and>
                       round_half_even lo \<le> k \<and> k \<le> round_half_even hi))"
    if ne: "xs \<noteq> []"
  proof -
    have dn: "dropna xs \<noteq> []"
    proof
      assume e: "dropna xs = []"
      with iqr_bounds_cases[of xs] have "iqr_bounds xs = (None, None)" by auto
      then have "w = xs" by (simp add: w_def winsorized_def)
      moreover have "median xs = None" using e by (simp add: median_None_iff)
      ultimately have "f = xs" by (simp add: f_def fillna_def)
      moreover from e ne have "None \<in> set xs"
        unfolding dropna_Nil_iff by (cases xs) auto
      ultimately show False using nonone by simp
    qed
    with iqr_bounds_cases[of xs] obtain lo hi where
      b: "iqr_bounds xs = (Some lo, Some hi)" "lo \<le> hi" by auto
    from iqr_bounds_quantiles[OF b(1)] obtain q1 q3 where
      q: "quantile (1 / 4) xs = Some q1" "quantile (3 / 4) xs = Some q3" "q1 \<le> q3"
         "lo = q1 - 3 / 2 * (q3 - q1)" "hi = q3 + 3 / 2 * (q3 - q1)"
      by (elim exE conjE) (rule that)
    have w: "w = clip (Some lo) (Some hi) xs" by (simp add: w_def winsorized_def b(1))
    have inb: "\<forall>v. Some v \<in> set w \<longrightarrow> lo \<le> v \<and> v \<le> hi"
      unfolding w using clip_in_bounds[OF b(2)] by blast
    from dn obtain v0 where "Some v0 \<in> set xs"
      unfolding dropna_Nil_iff by auto
    from clip_keeps_values[OF this] obtain w0 where "Some w0 \<in> set w" unfolding w by blast
    then have "dropna w \<noteq> []" unfolding dropna_Nil_iff by force
    then obtain m where m: "median w = Some m"
      using median_None_iff[of w] by auto
    from median_in_bounds[OF inb m] have mb: "lo \<le> m \<and> m \<le> hi" .
    have cells: "\<forall>c\<in>set f. \<exists>v. c = Some v \<and> lo \<le> v \<and> v \<le> hi"
      unfolding f_def m by (rule fillna_Some_cells[OF inb mb])
    have within: "(\<forall>x. Some x \<in> set xs \<longrightarrow> \<bar>x\<bar> \<le> 2 ^ 47) \<longrightarrow>
                  (\<forall>y\<in>set (map ?r f). \<exists>k::int. y = Some (of_int k) \<and>
                       round_half_even lo \<le> k \<and> k \<le> round_half_even hi)"
    proof (intro impI ballI)
      assume small: "\<forall>x. Some x \<in> set xs \<longrightarrow> \<bar>x\<bar> \<le> 2 ^ 47"
      have rng: "\<forall>x. Some x \<in> set xs \<longrightarrow> - (2 ^ 47) \<le> x \<and> x \<le> 2 ^ 47"
        using small by (auto simp: abs_le_iff)
      from iqr_bounds_in_range[OF rng b(1)] have lohi: "lo \<le> 2 ^ 47" "- (2 ^ 47) \<le> hi"
        by simp_all
      have inr: "\<forall>v. Some v \<in> set w \<longrightarrow> - (2 ^ 47) \<le> v \<and> v \<le> 2 ^ 47"
        unfolding w using clip_in_range[OF b(2) lohi rng] by blast
      from median_in_bounds[OF inr m] have mr: "- (2 ^ 47) \<le> m \<and> m \<le> 2 ^ 47" .
      have cellsr: "\<forall>c\<in>set f. \<exists>v. c = Some v \<and> - (2 ^ 47) \<le> v \<and> v \<le> 2 ^ 47"
        unfolding f_def m by (rule fillna_Some_cells[OF inr mr])
      fix y assume "y \<in> set (map ?r f)"
      then obtain c where c: "c \<in> set f" "y = ?r c" by auto
      with cells obtain v where v: "c = Some v" "lo \<le> v" "v \<le> hi" by blast
      from cellsr c(1) v(1) have vr: "- (2 ^ 47) \<le> v" "v \<le> 2 ^ 47" by auto
      have "y = Some (of_int (round_half_even v))"
        using c(2) v(1) by (simp add: int64_round_half_even[OF vr])
      moreover have "round_half_even lo \<le> round_half_even v"
        using v(2) by (rule round_half_even_mono)
      moreover have "round_half_even v \<le> round_half_even hi"
        using v(3) by (rule round_half_even_mono)
      ultimately show "\<exists>k::int. y = Some (of_int k) \<and>
                    round_half_even lo \<le> k \<and> k \<le> round_half_even hi" by blast
    qed
    note n1 = nearest_integer_round_half_even[of lo]
    note n2 = nearest_integer_round_half_even[of hi]
    from q b n1 n2 within show ?thesis by blast
  qed
  show ?thesis
    using X4 xs mY len bounded by (intro exI[of _ X4] exI[of _ xs] exI[of _ "map ?r f"]) blast
qed

text \<open>
  The claim as stated fails on the example: the processed column
  \<^verbatim>\<open>Transportation expense\<close> holds 38, which is below the lower bound 61.25 computed
  on that same processed column.
\<close>

theorem processed_column_outside_its_own_bounds:
  "create_preprocessing_pipeline float_table ex_raw = Inr ex_clean \<and>
   map_of ex_clean ''Transportation expense'' = Some [Some 38, Some 100, Some 100, Some 100] \<and>
   iqr_bounds [Some 38, Some 100, Some 100, Some 100] = (Some (245 / 4), Some (493 / 4)) \<and>
   (38 :: rat) < 245 / 4"
  using ex_pipeline ex_clean_bounds by (simp add: ex_clean_def somes_def)

theorem clipped_within_stage_5_input_bounds_witness:
  "create_preprocessing_pipeline float_table ex_raw = Inr ex_clean \<and>
   ''Transportation expense'' \<in> set outlier_columns \<and>
   stages_1_to_4 float_table ex_raw = Inr ex_stage4 \<and>
   map_of ex_stage4 ''Transportation expense'' = Some [Some 0, Some 100, Some 100, Some 100] \<and>
   iqr_bounds [Some 0, Some 100, Some 100, Some 100] = (Some (75 / 2), Some (275 / 2)) \<and>
   round_half_even (75 / 2) = 38 \<and> round_half_even (275 / 2) = 138 \<and>
   (\<exists>ys. map_of ex_clean ''Transportation expense'' = Some ys \<and> length ys = 4 \<and>
         (\<forall>y\<in>set ys. \<exists>k::int. y = Some (of_int k) \<and> 38 \<le> k \<and> k \<le> 138))"
proof -
  let ?xs = "[Some 0, Some 100, Some 100, Some (100::rat)]"
  have l: "''Transportation expense'' \<in> set outlier_columns"
    by (simp add: outlier_columns_def)
  have m4: "map_of ex_stage4 ''Transportation expense'' = Some ?xs"
    by (simp add: ex_stage4_def somes_def)
  have r: "round_half_even (75 / 2) = 38" "round_half_even (275 / 2) = 138"
    by (simp_all add: round_half_even_def Let_def)
  have small: "\<forall>x. Some x \<in> set ?xs \<longrightarrow> \<bar>x\<bar> \<le> 2 ^ 47"
    by auto
  from clipped_within_stage_5_input_bounds[OF ex_pipeline l] obtain X4 xs ys where
    h: "stages_1_to_4 float_table ex_raw = Inr X4" "map_of X4 ''Transportation expense'' = Some xs"
      "map_of ex_clean ''Transportation expense'' = Some ys" "length ys = length xs"
      "xs = [] \<or>
        (\<exists>q1 q3 lo hi.
               quantile (1 / 4) xs = Some q1 \<and> quantile (3 / 4) xs = Some q3 \<and> q1 \<le> q3 \<and>
               lo = q1 - 3 / 2 * (q3 - q1) \<and> hi = q3 + 3 / 2 * (q3 - q1) \<and>
               iqr_bounds xs = (Some lo, Some hi) \<and> lo \<le> hi \<and>
               nearest_integer lo (round_half_even lo) \<and>
               nearest_integer hi (round_half_even hi) \<and>
               ((\<forall>x. Some x \<in> set xs \<longrightarrow> \<bar>x\<bar> \<le> 2 ^ 47) \<longrightarrow>
                  (\<forall>y\<in>set ys. \<exists>k::int. y = Some (of_int k) \<and>
                       round_half_even lo \<le> k \<and> k \<le> round_half_even hi)))"
    by (elim exE conjE) (rule that)
  have "X4 = ex_stage4" using h(1) ex_stages_1_to_4 by simp
  with h(2) m4 have xs: "xs = ?xs" by simp
  from h(5) have "\<exists>q1 q3 lo hi.
               quantile (1 / 4) ?xs = Some q1 \<and> quantile (3 / 4) ?xs = Some q3 \<and> q1 \<le> q3 \<and>
               lo = q1 - 3 / 2 * (q3 - q1) \<and> hi = q3 + 3 / 2 * (q3 - q1) \<and>
               iqr_bounds ?xs = (Some lo, Some hi) \<and> lo \<le> hi \<and>
               nearest_integer lo (round_half_even lo) \<and>
               nearest_integer hi (round_half_even hi) \<and>
               ((\<forall>x. Some x \<in> set ?xs \<longrightarrow> \<bar>x\<bar> \<le> 2 ^ 47) \<longrightarrow>
                  (\<forall>y\<in>set ys. \<exists>k::int. y = Some (of_int k) \<and>
                       round_half_even lo \<le> k \<and> k \<le> round_half_even hi))"
    unfolding xs by (elim disjE) simp_all
  then obtain lo hi where b: "iqr_bounds ?xs = (Some lo, Some hi)"
    and imp: "(\<forall>x. Some x \<in> set ?xs \<longrightarrow> \<bar>x\<bar> \<le> 2 ^ 47) \<longrightarrow>
              (\<forall>y\<in>set ys. \<exists>k::int. y = Some (of_int k) \<and>
                   round_half_even lo \<le> k \<and> k \<le> round_half_even hi)"
    by (elim exE conjE) (rule that)
  from imp small have every: "\<forall>y\<in>set ys. \<exists>k::int. y = Some (of_int k) \<and>
                round_half_even lo \<le> k \<and> k \<le> round_half_even hi"
    by (rule mp)
  from b have "(Some lo, Some hi) = (Some (75 / 2), Some (275 / 2))"
    unfolding iqr_bounds_ex(1) by (rule sym)
  then have "lo = 75 / 2" "hi = 275 / 2"
    by (simp_all only: prod.inject option.inject)
  with every r have
    "\<forall>y\<in>set ys. \<exists>k::int. y = Some (of_int k) \<and> 38 \<le> k \<and> k \<le> 138"
    by (simp only:)
  moreover have "length ys = 4" using h(4) xs by simp
  ultimately have "\<exists>ys. map_of ex_clean ''Transportation expense'' = Some ys \<and> length ys = 4 \<and>
         (\<forall>y\<in>set ys. \<exists>k::int. y = Some (of_int k) \<and> 38 \<le> k \<and> k \<le> 138)"
    using h(3) by blast
  then show ?thesis
    using ex_pipeline l ex_stages_1_to_4 m4 iqr_bounds_ex(1) r by (intro conjI) assumption+
qed

end
